theory Spec2Isabelle
  imports Complex_Main "HOL-Library.Sublist"
begin

section \<open>OmniTech: the analysis request orchestrator of \<open>src/App.jsx\<close>\<close>

text \<open>
  The development embeds the second (current) component of \<open>src/App.jsx\<close>: the client-side rate
  guard \<open>canCallNow\<close>, the inference call \<open>callOmniTech\<close>, the result handler
  \<open>handleAnalysisResult\<close>, the demo generator \<open>getDemoResult\<close>, the log \<open>addLog\<close>, the report
  \<open>generateFieldReport\<close> and the handlers of the controls that call them.

  React state and refs are the fields of one record, passed explicitly. The collaborators
  (inference service, Firestore, speech synthesis) are traces inside that record: a call to one of
  them appends to its trace. Everything the browser supplies to a handler (clock, camera frame)
  is an argument. \<open>callOmniTech\<close> suspends at \<open>await fetch\<close>; it is split there into
  \<open>callOmniTech_begin\<close> and \<open>callOmniTech_resume\<close>, and the suspended call is the field
  \<open>pending\<close>, which keeps the values its closure captured.
\<close>

subsection \<open>Configuration\<close>

definition DEMO_MODE :: bool where
  "DEMO_MODE = True"

definition COOLDOWN_MS :: int where
  "COOLDOWN_MS = 2500"

definition MAX_CALLS_PER_MIN :: nat where
  "MAX_CALLS_PER_MIN = 8"

text \<open>
  What the environment decides: the Gemini key, whether Firestore came up, and whether the
  browser has speech recognition.
\<close>

record config =
  API_KEY :: "string option"
  db :: bool
  speech_recognition :: bool

subsection \<open>JavaScript values\<close>

text \<open>A string or \<open>undefined\<close>; \<open>truthy\<close> is JavaScript's test, \<open>or_else a d\<close> is \<open>a || d\<close>.\<close>

definition truthy :: "string option \<Rightarrow> bool" where
  "truthy v = (case v of None \<Rightarrow> False | Some t \<Rightarrow> t \<noteq> [])"

definition or_else :: "string option \<Rightarrow> string \<Rightarrow> string" where
  "or_else v d = (case v of None \<Rightarrow> d | Some t \<Rightarrow> if t = [] then d else t)"

text \<open>Decimal rendering of a number inside a template literal.\<close>

definition digit_char :: "nat \<Rightarrow> char" where
  "digit_char d = ''0123456789'' ! d"

function show_nat :: "nat \<Rightarrow> string" where
  "show_nat n = (if n < 10 then [digit_char n] else show_nat (n div 10) @ [digit_char (n mod 10)])"
  by pat_completeness auto
termination
  by (relation "measure id") auto

declare show_nat.simps [simp del]

definition show_int :: "int \<Rightarrow> string" where
  "show_int i = (if i < 0 then ''-'' @ show_nat (nat (- i)) else show_nat (nat i))"

text \<open>
  A string is the list of its UTF-8 bytes. The white space of \<open>String.prototype.trim\<close> and of
  \<open>\s\<close> in a regular expression: tab, line feed, vertical tab, form feed, carriage return,
  space, U+00A0, U+1680, U+2000 to U+200A, U+2028, U+2029, U+202F, U+205F, U+3000 and U+FEFF.
\<close>

definition white_space :: "string list" where
  "white_space =
    [[CHR 0x09], [CHR 0x0A], [CHR 0x0B], [CHR 0x0C], [CHR 0x0D], [CHR 0x20],
     [CHR 0xC2, CHR 0xA0],
     [CHR 0xE1, CHR 0x9A, CHR 0x80],
     [CHR 0xE2, CHR 0x80, CHR 0x80], [CHR 0xE2, CHR 0x80, CHR 0x81],
     [CHR 0xE2, CHR 0x80, CHR 0x82], [CHR 0xE2, CHR 0x80, CHR 0x83],
     [CHR 0xE2, CHR 0x80, CHR 0x84], [CHR 0xE2, CHR 0x80, CHR 0x85],
     [CHR 0xE2, CHR 0x80, CHR 0x86], [CHR 0xE2, CHR 0x80, CHR 0x87],
     [CHR 0xE2, CHR 0x80, CHR 0x88], [CHR 0xE2, CHR 0x80, CHR 0x89],
     [CHR 0xE2, CHR 0x80, CHR 0x8A],
     [CHR 0xE2, CHR 0x80, CHR 0xA8], [CHR 0xE2, CHR 0x80, CHR 0xA9],
     [CHR 0xE2, CHR 0x80, CHR 0xAF],
     [CHR 0xE2, CHR 0x81, CHR 0x9F],
     [CHR 0xE3, CHR 0x80, CHR 0x80],
     [CHR 0xEF, CHR 0xBB, CHR 0xBF]]"

text \<open>\<open>strip ws t\<close> removes from the front of \<open>t\<close> every leading occurrence of a member of \<open>ws\<close>.\<close>

function strip :: "string list \<Rightarrow> string \<Rightarrow> string" where
  "strip ws t =
    (case find (\<lambda>w. w \<noteq> [] \<and> prefix w t) ws of
       None \<Rightarrow> t
     | Some w \<Rightarrow> strip ws (drop (length w) t))"
  by pat_completeness auto
termination
  by (relation "measure (\<lambda>(ws, t). length t)") (auto simp add: find_Some_iff prefix_def)

declare strip.simps [simp del]

text \<open>\<open>String.prototype.trim\<close>: the white space is stripped from both ends.\<close>

definition trim :: "string \<Rightarrow> string" where
  "trim t = rev (strip (map rev white_space) (rev (strip white_space t)))"

text \<open>\<open>Array.prototype.join("\n")\<close>.\<close>

fun join_lines :: "string list \<Rightarrow> string" where
  "join_lines [] = []"
| "join_lines [l] = l"
| "join_lines (l # m # ls) = l @ [CHR 0x0A] @ join_lines (m # ls)"

text \<open>The two dashes of the source's messages, as their UTF-8 bytes.\<close>

definition em_dash :: string where
  "em_dash = [CHR 0xE2, CHR 0x80, CHR 0x94]"

definition en_dash :: string where
  "en_dash = [CHR 0xE2, CHR 0x80, CHR 0x93]"

text \<open>
  \<open>String(text).replace(/\.\s+/g, ". \<dots> ")\<close>, which \<open>speak\<close> applies to what it says: a full
  stop with the white space after it becomes a full stop, a space, an ellipsis (U+2026) and a
  space.
\<close>

definition ellipsis :: string where
  "ellipsis = [CHR 0xE2, CHR 0x80, CHR 0xA6]"

function speech_text :: "string \<Rightarrow> string" where
  "speech_text [] = []"
| "speech_text (c # cs) =
    (if c = CHR ''.'' \<and> strip white_space cs \<noteq> cs
     then ''. '' @ ellipsis @ '' '' @ speech_text (strip white_space cs)
     else c # speech_text cs)"
  by pat_completeness auto
termination
proof (relation "measure length")
  show "wf (measure length)"
    by simp
next
  fix c :: char and cs :: string
  have "length (strip ws t) \<le> length t" for ws t
  proof (induction ws t rule: strip.induct)
    case (1 ws t)
    show ?case
    proof (cases "find (\<lambda>w. w \<noteq> [] \<and> prefix w t) ws")
      case None
      then show ?thesis by (simp add: strip.simps [of ws t])
    next
      case (Some w)
      then show ?thesis
        using 1 [OF Some] by (simp add: strip.simps [of ws t])
    qed
  qed
  then show "(strip white_space cs, c # cs) \<in> measure length"
    by (simp add: le_imp_less_Suc)
next
  fix c :: char and cs :: string
  show "(cs, c # cs) \<in> measure length"
    by simp
qed

declare speech_text.simps [simp del]

subsection \<open>Data model\<close>

datatype mode = safety_check | diagnosis | repair_guide

text \<open>
  The object parsed from the service's answer, restricted to the five keys the code reads; a key
  the answer lacks is \<open>None\<close>.
\<close>

record analysis_result =
  status :: "string option"
  headline :: "string option"
  reasoning :: "string option"
  action_required :: "string option"
  repair_steps :: "string list option"

record log_entry =
  source :: string
  message :: string
  time :: string

record toast_msg =
  toast_message :: string
  toast_type :: string

text \<open>The arguments of one \<open>fetch\<close> to the inference service.\<close>

record request =
  req_task :: string
  req_text :: string
  req_image :: string

text \<open>The arguments of one \<open>addDoc\<close>.\<close>

record saved_doc =
  doc_uid :: string
  doc_mode :: mode
  doc_result :: analysis_result

text \<open>What a resolved \<open>fetch\<close> gives: it throws, or it answers with a status and a body.\<close>

datatype json_outcome =
    JsonThrows
  | JsonError "string option"
  | JsonNoText
  | JsonText "analysis_result option"

record response =
  http_status :: int
  text_body :: "string option"
  json_body :: json_outcome

datatype fetch_outcome = FetchThrows | Response response

definition response_ok :: "response \<Rightarrow> bool" where
  "response_ok r = (200 \<le> http_status r \<and> http_status r \<le> 299)"

text \<open>The same for the report request, whose body holds the report text.\<close>

record report_response =
  rep_status :: int
  rep_text_body :: "string option"
  rep_json :: "string option option"

datatype report_outcome = ReportFetchThrows | ReportResponse report_response

text \<open>The values a suspended \<open>callOmniTech\<close> captured from the render it was called in.\<close>

record pending_call =
  p_mode :: mode
  p_demoStep :: nat
  p_user :: "string option"

text \<open>
  The React state a handler reads is that of the render it was created in. A button's handler
  is of the current render; the handler of a speech recognition is of the render in which the
  microphone was switched on.
\<close>

record closure =
  c_demoStep :: nat
  c_user :: "string option"
  c_userContext :: string

text \<open>
  What \<open>captureFrame()\<close> does when it is called: it returns a frame, or \<open>null\<close> when the video
  is not ready, or it throws (the canvas gives no 2D context, the export of the canvas is
  refused).
\<close>

datatype capture = CaptureThrows | Captured "string option"

text \<open>What the browser supplies while one handler runs.\<close>

record reads =
  date_now :: int
  date_now2 :: int
  time_string :: string
  date_string :: string
  frame :: capture

text \<open>
  The refs and the React state of the component, then the suspended continuations, then the
  traces: \<open>requests\<close> and \<open>report_requests\<close> hold the \<open>fetch\<close> calls issued, \<open>saved\<close> the
  \<open>addDoc\<close> calls, \<open>spoken\<close> the utterances, and \<open>admitted\<close> every value pushed onto
  \<open>callTimestampsRef\<close> (the ref itself is pruned by \<open>canCallNow\<close>, the trace never is).
\<close>

record app_state =
  inFlight :: bool
  lastCallAt :: int
  callTimestamps :: "int list"
  user :: "string option"
  isStreamActive :: bool
  analyzing :: bool
  systemState :: string
  logs :: "log_entry list"
  currentAnalysis :: "analysis_result option"
  repairSteps :: "string list option"
  showRepairModal :: bool
  generatedReport :: "string option"
  showReportModal :: bool
  generatingReport :: bool
  activeTab :: string
  demoStep :: nat
  userContext :: string
  toast :: "toast_msg option"
  isListening :: bool
  recognition :: "closure option"
  pending :: "pending_call option"
  report_pending :: "log_entry list option"
  requests :: "request list"
  report_requests :: "string list"
  saved :: "saved_doc list"
  spoken :: "string list"
  admitted :: "int list"

definition current_closure :: "app_state \<Rightarrow> closure" where
  "current_closure s =
     \<lparr>c_demoStep = demoStep s, c_user = user s, c_userContext = userContext s\<rparr>"

definition initial_state :: app_state where
  "initial_state = \<lparr>inFlight = False, lastCallAt = 0, callTimestamps = [], user = None,
     isStreamActive = False, analyzing = False, systemState = ''IDLE'', logs = [],
     currentAnalysis = None, repairSteps = None, showRepairModal = False,
     generatedReport = None, showReportModal = False, generatingReport = False,
     activeTab = ''safety'', demoStep = 0, userContext = [], toast = None,
     isListening = False, recognition = None, pending = None,
     report_pending = None, requests = [], report_requests = [], saved = [], spoken = [],
     admitted = []\<rparr>"

subsection \<open>Demo fallback\<close>

definition demo :: "analysis_result list" where
  "demo =
    [\<lparr>status = Some ''DANGER'',
      headline = Some ''Liquid Hazard Near Electronics'',
      reasoning = Some ''A container of liquid is placed close to exposed electronics, increasing spill and short-circuit risk.'',
      action_required = Some ''Move the liquid away and dry the area before continuing.'',
      repair_steps = Some []\<rparr>,
     \<lparr>status = Some ''UNCERTAIN'',
      headline = Some ''Image Quality Too Poor'',
      reasoning = Some ''The image is too blurry/low-detail to confirm cable condition or hazards.'',
      action_required = Some ''Move closer, improve lighting, and hold still for a clear frame.'',
      repair_steps = Some []\<rparr>,
     \<lparr>status = Some ''SAFE'',
      headline = Some ''Environment Appears Clear'',
      reasoning = Some ''No immediate hazards are visible; workspace looks stable and dry.'',
      action_required = Some ''Proceed with diagnosis. Keep hands dry and avoid exposed contacts.'',
      repair_steps = Some
        [''Power off the device and unplug it (if safe).'',
         ''Inspect connectors for looseness or debris.'',
         ''Reseat the cable firmly and check for damage.'',
         ''Power on and re-test the system behavior.'',
         ''If issue persists, replace the cable/component.'']\<rparr>]"

definition getDemoResult :: "mode \<Rightarrow> nat \<Rightarrow> analysis_result" where
  "getDemoResult mode step =
    (let pick = demo ! (step mod length demo) in
     if mode = repair_guide then
       \<lparr>status = Some ''SAFE'',
        headline = Some ''Repair Protocol Ready'',
        reasoning = Some ''Safety confirmed. Providing step-by-step repair guidance.'',
        action_required = Some ''Follow steps carefully. Stop if heat/smoke appears.'',
        repair_steps =
          (case repair_steps pick of
             None \<Rightarrow> repair_steps (demo ! 2)
           | Some steps \<Rightarrow> if length steps \<noteq> 0 then Some steps else repair_steps (demo ! 2))\<rparr>
     else if mode = diagnosis then
       pick\<lparr>headline :=
              (if status pick = Some ''SAFE'' then Some ''Fault Likely: Loose Connection''
               else headline pick),
            reasoning :=
              (if status pick = Some ''SAFE''
               then Some ''Visual cues suggest an intermittent connection; reseating and inspection is recommended.''
               else reasoning pick)\<rparr>
     else pick)"

subsection \<open>Logging\<close>

definition addLog :: "reads \<Rightarrow> string \<Rightarrow> string \<Rightarrow> string \<Rightarrow> app_state \<Rightarrow> app_state" where
  "addLog rd src msg typ s =
    (let s1 = s\<lparr>logs := \<lparr>source = src, message = msg, time = time_string rd\<rparr> # logs s\<rparr>
     in if typ = ''error'' \<or> src = ''ERROR''
        then s1\<lparr>toast := Some \<lparr>toast_message = msg, toast_type = ''error''\<rparr>\<rparr>
        else s1)"

text \<open>
  \<open>speak\<close> returns at once on an empty text; otherwise the text, with its pauses marked, goes
  to the speech synthesis, here to its trace.
\<close>

definition speak :: "string \<Rightarrow> app_state \<Rightarrow> app_state" where
  "speak text s = (if text = [] then s else s\<lparr>spoken := spoken s @ [speech_text text]\<rparr>)"

subsection \<open>Client-side rate guard\<close>

datatype guard = Ok | Reject string

text \<open>\<open>Math.ceil((COOLDOWN_MS - delta) / 1000)\<close>, the division being that of the reals.\<close>

definition wait_seconds :: "int \<Rightarrow> int" where
  "wait_seconds delta = \<lceil>real_of_int (COOLDOWN_MS - delta) / 1000\<rceil>"

definition canCallNow :: "int \<Rightarrow> app_state \<Rightarrow> guard \<times> app_state" where
  "canCallNow now s =
    (if inFlight s then (Reject ''Request in progress...'', s)
     else
       let delta = now - lastCallAt s in
       if delta < COOLDOWN_MS
       then (Reject (''Cooldown: wait '' @ show_int (wait_seconds delta) @ ''s''), s)
       else
         let oneMinAgo = now - 60000;
             s1 = s\<lparr>callTimestamps := filter (\<lambda>t. t > oneMinAgo) (callTimestamps s)\<rparr>
         in if length (callTimestamps s1) \<ge> MAX_CALLS_PER_MIN
            then (Reject ''Rate limit: too many requests/min'', s1)
            else (Ok, s1))"

subsection \<open>Result handling\<close>

definition handleAnalysisResult ::
  "config \<Rightarrow> reads \<Rightarrow> string option \<Rightarrow> analysis_result \<Rightarrow> mode \<Rightarrow> bool \<Rightarrow> app_state \<Rightarrow> app_state" where
  "handleAnalysisResult cfg rd usr result mode skipSave s =
    (if mode = repair_guide \<and> repair_steps result \<noteq> None
     then s\<lparr>repairSteps := repair_steps result, showRepairModal := True\<rparr>
     else
       let s1 = s\<lparr>currentAnalysis := Some result\<rparr>;
           s2 = s1\<lparr>systemState := or_else (status result) ''UNCERTAIN''\<rparr>;
           s3 = speak (or_else (headline result) ''Update'' @ ''. ''
                        @ or_else (action_required result) []) s2;
           s4 = addLog rd ''OMNITECH'' (or_else (reasoning result) ''No reasoning returned.'')
                  ''info'' s3
       in case usr of
            None \<Rightarrow> s4
          | Some uid \<Rightarrow>
              if \<not> skipSave \<and> db cfg
              then s4\<lparr>saved := saved s4 @ [\<lparr>doc_uid = uid, doc_mode = mode, doc_result = result\<rparr>]\<rparr>
              else s4)"

subsection \<open>The inference call\<close>

text \<open>
  The system instruction is a fixed preamble, the same for every mode, followed by the task
  clause of the mode. The trace of a request keeps the clause, the user text and the image.
\<close>

definition task_clause :: "mode \<Rightarrow> string" where
  "task_clause mode =
    (if mode = safety_check then ''TASK: Scan for immediate hazards.''
     else if mode = diagnosis then ''TASK: Diagnose likely failure. If hazard seen -> DANGER and stop.''
     else ''TASK: Provide step-by-step repair guide. Assume safety confirmed.'')"

text \<open>
  How every exit after the request leaves: \<open>setAnalyzing(false)\<close>,
  \<open>inFlightRef.current = false\<close>, and the call is no longer suspended.
\<close>

definition finish :: "app_state \<Rightarrow> app_state" where
  "finish s = s\<lparr>analyzing := False, inFlight := False, pending := None\<rparr>"

text \<open>
  \<open>callOmniTech\<close> up to \<open>await fetch\<close>. The clock is read twice: by \<open>canCallNow\<close> and again
  when the admission is recorded. \<open>cl\<close> holds the state values of the render the caller
  belongs to. \<open>captureFrame()\<close> is called after \<open>inFlightRef.current = true\<close> and before the
  \<open>try\<close> block: when it throws, the exception leaves \<open>callOmniTech\<close> with nothing after it
  run, neither the \<open>catch\<close> nor the \<open>finally\<close>, and the caller, which does not await the
  call, goes on.
\<close>

definition callOmniTech_begin ::
  "config \<Rightarrow> reads \<Rightarrow> closure \<Rightarrow> mode \<Rightarrow> string \<Rightarrow> app_state \<Rightarrow> app_state" where
  "callOmniTech_begin cfg rd cl mode manualContext s =
    (case canCallNow (date_now rd) s of
       (Reject reason, s1) \<Rightarrow>
         s1\<lparr>toast := Some \<lparr>toast_message = reason, toast_type = ''error''\<rparr>\<rparr>
     | (Ok, s1) \<Rightarrow>
         let s2 = s1\<lparr>lastCallAt := date_now2 rd\<rparr>;
             s3 = s2\<lparr>callTimestamps := callTimestamps s2 @ [lastCallAt s2],
                     admitted := admitted s2 @ [lastCallAt s2]\<rparr>;
             s4 = s3\<lparr>analyzing := True, inFlight := True\<rparr>
         in if \<not> truthy (API_KEY cfg) then
              let s5 = addLog rd ''ERROR'' ''Missing VITE_GEMINI_API_KEY. Using demo output.''
                         ''error'' s4;
                  d = getDemoResult mode (c_demoStep cl);
                  s6 = s5\<lparr>demoStep := demoStep s5 + 1\<rparr>;
                  s7 = handleAnalysisResult cfg rd (c_user cl) d mode True s6
              in s7\<lparr>analyzing := False, inFlight := False\<rparr>
            else
              (case frame rd of
                 CaptureThrows \<Rightarrow> s4
               | Captured imageBase64 \<Rightarrow>
                   if \<not> truthy imageBase64 then
                     let s5 = addLog rd ''ERROR''
                                (''Camera not ready yet. Wait 1'' @ en_dash
                                   @ ''2 seconds after Initialize Optics.'') ''error'' s4
                     in s5\<lparr>analyzing := False, inFlight := False\<rparr>
                   else
                     let finalContext =
                           trim (if manualContext \<noteq> [] then manualContext
                                 else c_userContext cl);
                         req = \<lparr>req_task = task_clause mode,
                                req_text = (if finalContext \<noteq> []
                                            then ''User Context: '' @ finalContext
                                            else ''Analyze this scene.''),
                                req_image = or_else imageBase64 []\<rparr>
                     in s4\<lparr>requests := requests s4 @ [req],
                           pending := Some \<lparr>p_mode = mode, p_demoStep = c_demoStep cl,
                                             p_user = c_user cl\<rparr>\<rparr>))"

text \<open>The \<open>catch\<close> block, followed by \<open>finally\<close>.\<close>

definition connection_failed :: "reads \<Rightarrow> app_state \<Rightarrow> app_state" where
  "connection_failed rd s =
     finish (addLog rd ''ERROR'' ''Connection to OmniTech Core failed. Check network.'' ''error'' s)"

text \<open>
  \<open>callOmniTech\<close> from the resolution of \<open>fetch\<close> on. Reading the body can throw as well
  (\<open>text_body = None\<close>, \<open>JsonThrows\<close>), which ends in the \<open>catch\<close> block, except for the
  text of a 429, whose failure is replaced by the empty string. \<open>JsonText None\<close> is a candidate
  text that \<open>JSON.parse\<close> rejects. \<open>slice(0, n)\<close> is \<open>take n\<close>, which counts bytes here.
\<close>

definition callOmniTech_resume ::
  "config \<Rightarrow> reads \<Rightarrow> pending_call \<Rightarrow> fetch_outcome \<Rightarrow> app_state \<Rightarrow> app_state" where
  "callOmniTech_resume cfg rd p out s =
    (case out of
       FetchThrows \<Rightarrow> connection_failed rd s
     | Response resp \<Rightarrow>
         if http_status resp = 429 then
           let errText = (case text_body resp of None \<Rightarrow> [] | Some t \<Rightarrow> t);
               s1 = addLog rd ''ERROR''
                      ''Gemini HTTP 429 (quota/rate limit). Switching to demo output.'' ''error'' s;
               s2 = addLog rd ''SYSTEM''
                      ''Tip: reduce clicks / disable report / or increase quota in Google billing.''
                      ''info'' s1
           in if DEMO_MODE then
                let d = getDemoResult (p_mode p) (p_demoStep p);
                    s3 = s2\<lparr>demoStep := demoStep s2 + 1\<rparr>;
                    s4 = handleAnalysisResult cfg rd (p_user p) d (p_mode p) True s3;
                    s5 = s4\<lparr>toast := Some \<lparr>toast_message =
                                 ''Quota hit '' @ em_dash @ '' demo fallback enabled.'',
                               toast_type = ''success''\<rparr>\<rparr>
                in finish s5
              else
                finish (addLog rd ''ERROR'' (''Gemini HTTP 429 details: '' @ take 160 errText)
                          ''error'' s2)
         else if \<not> response_ok resp then
           (case text_body resp of
              None \<Rightarrow> connection_failed rd s
            | Some errText \<Rightarrow>
                finish (addLog rd ''ERROR''
                          (''Gemini HTTP '' @ show_int (http_status resp) @ '': '' @ take 180 errText)
                          ''error'' s))
         else
           (case json_body resp of
              JsonThrows \<Rightarrow> connection_failed rd s
            | JsonError msg \<Rightarrow>
                finish (addLog rd ''ERROR'' (''Gemini error: '' @ or_else msg ''Unknown error'')
                          ''error'' s)
            | JsonNoText \<Rightarrow>
                finish (addLog rd ''ERROR'' ''No response from AI. Try again.'' ''error'' s)
            | JsonText parsed \<Rightarrow>
                (case parsed of
                   None \<Rightarrow>
                     finish (addLog rd ''ERROR'' ''AI response corrupted (bad JSON). Try again.''
                               ''error'' s)
                 | Some result \<Rightarrow>
                     let s1 = handleAnalysisResult cfg rd (p_user p) result (p_mode p) False s;
                         s2 = s1\<lparr>userContext := []\<rparr>
                     in finish s2)))"

subsection \<open>Report generation\<close>

definition fmt_log :: "log_entry \<Rightarrow> string" where
  "fmt_log l = ''['' @ time l @ ''] '' @ source l @ '': '' @ message l"

text \<open>\<open>logs.slice(0, 30).reverse().map(...)\<close>: the log is newest first.\<close>

definition recent_lines :: "log_entry list \<Rightarrow> string list" where
  "recent_lines ls = map fmt_log (rev (take 30 ls))"

definition local_header :: "string \<Rightarrow> string list" where
  "local_header generated =
    [''FIELD INCIDENT REPORT'',
     ''--------------------'',
     ''Generated: '' @ generated,
     [],
     ''SESSION LOGS:'']"

definition local_footer :: "string list" where
  "local_footer =
    [[],
     ''Summary:'',
     ''- OmniTech recorded safety/diagnostic events.'',
     ''- Review recommended actions before proceeding.'']"

definition local_report :: "string \<Rightarrow> log_entry list \<Rightarrow> string" where
  "local_report generated ls =
    join_lines (local_header generated @ recent_lines ls @ local_footer)"

definition fallback_header :: "string \<Rightarrow> string list" where
  "fallback_header generated =
    [''FIELD INCIDENT REPORT (LOCAL FALLBACK)'',
     ''-------------------------------------'',
     ''Generated: '' @ generated,
     [],
     ''SESSION LOGS:'']"

definition fallback_report :: "string \<Rightarrow> log_entry list \<Rightarrow> string" where
  "fallback_report generated ls = join_lines (fallback_header generated @ recent_lines ls)"

text \<open>\<open>generateFieldReport\<close> up to \<open>await fetch\<close>, which only a build without demo mode reaches.\<close>

definition generateFieldReport_begin :: "config \<Rightarrow> reads \<Rightarrow> app_state \<Rightarrow> app_state" where
  "generateFieldReport_begin cfg rd s =
    (if length (logs s) = 0 then s
     else if \<not> truthy (API_KEY cfg) \<or> DEMO_MODE then
       let s1 = s\<lparr>generatedReport := Some (local_report (date_string rd) (logs s))\<rparr>;
           s2 = s1\<lparr>showReportModal := True\<rparr>
       in addLog rd ''SYSTEM'' ''Local report generated (demo / no-quota mode).'' ''info'' s2
     else
       let s1 = s\<lparr>generatingReport := True\<rparr>;
           logText = join_lines (map fmt_log (logs s))
       in s1\<lparr>report_requests := report_requests s1
                 @ [''Generate a professional Field Incident Report based on these raw logs:''
                      @ [CHR 0x0A, CHR 0x0A] @ logText],
               report_pending := Some (logs s)\<rparr>)"

definition report_done :: "app_state \<Rightarrow> app_state" where
  "report_done s = s\<lparr>generatingReport := False, report_pending := None\<rparr>"

definition report_failed :: "reads \<Rightarrow> app_state \<Rightarrow> app_state" where
  "report_failed rd s = report_done (addLog rd ''ERROR'' ''Failed to generate report.'' ''error'' s)"

text \<open>The continuation after \<open>await fetch\<close>; \<open>ls\<close> is the log its closure captured.\<close>

definition generateFieldReport_resume ::
  "reads \<Rightarrow> log_entry list \<Rightarrow> report_outcome \<Rightarrow> app_state \<Rightarrow> app_state" where
  "generateFieldReport_resume rd ls out s =
    (case out of
       ReportFetchThrows \<Rightarrow> report_failed rd s
     | ReportResponse r \<Rightarrow>
         if rep_status r = 429 then
           let s1 = addLog rd ''ERROR'' ''Report HTTP 429 (quota). Using local report instead.''
                      ''error'' s;
               s2 = s1\<lparr>generatedReport := Some (fallback_report (date_string rd) ls)\<rparr>;
               s3 = s2\<lparr>showReportModal := True\<rparr>
           in report_done s3
         else if \<not> (200 \<le> rep_status r \<and> rep_status r \<le> 299) then
           (case rep_text_body r of
              None \<Rightarrow> report_failed rd s
            | Some errText \<Rightarrow>
                report_done
                  (addLog rd ''ERROR''
                     (''Report HTTP '' @ show_int (rep_status r) @ '': '' @ take 180 errText)
                     ''error'' s))
         else
           (case rep_json r of
              None \<Rightarrow> report_failed rd s
            | Some report \<Rightarrow>
                let s1 = s\<lparr>generatedReport := Some (or_else report ''No report generated.'')\<rparr>;
                    s2 = s1\<lparr>showReportModal := True\<rparr>
                in report_done (addLog rd ''SYSTEM'' ''Field Report generated.'' ''info'' s2)))"

subsection \<open>The controls\<close>

definition submitTextDiagnosis :: "config \<Rightarrow> reads \<Rightarrow> app_state \<Rightarrow> app_state" where
  "submitTextDiagnosis cfg rd s =
    (let clean = trim (userContext s) in
     if clean = [] then s
     else
       let s1 = s\<lparr>toast := Some \<lparr>toast_message = ''Context sent.'', toast_type = ''success''\<rparr>\<rparr>;
           s2 = callOmniTech_begin cfg rd (current_closure s) diagnosis clean s1
       in s2\<lparr>userContext := []\<rparr>)"

definition toggleListening :: "config \<Rightarrow> app_state \<Rightarrow> app_state" where
  "toggleListening cfg s =
    (if \<not> speech_recognition cfg then
       s\<lparr>toast := Some \<lparr>toast_message = ''Voice input not supported in this browser.'',
                          toast_type = ''error''\<rparr>\<rparr>
     else if isListening s then s\<lparr>isListening := False\<rparr>
     else s\<lparr>isListening := True, recognition := Some (current_closure s)\<rparr>)"

text \<open>\<open>recognition.onresult\<close>, with the closure of the render that created the recognition.\<close>

definition onresult :: "config \<Rightarrow> reads \<Rightarrow> closure \<Rightarrow> string \<Rightarrow> app_state \<Rightarrow> app_state" where
  "onresult cfg rd cl heard s =
    (let transcript = trim heard in
     if transcript = [] then s
     else
       let s1 = s\<lparr>toast := Some \<lparr>toast_message = ''Heard: '' @ [CHR 0x22] @ transcript @ [CHR 0x22],
                                  toast_type = ''success''\<rparr>\<rparr>;
           s2 = callOmniTech_begin cfg rd cl diagnosis transcript s1;
           s3 = s2\<lparr>isListening := False\<rparr>
       in s3\<lparr>userContext := []\<rparr>)"

text \<open>
  What can happen to the component: the camera comes up or is refused, the identity provider
  answers, the user types, presses Enter in the text field, clicks SAFETY, DIAGNOSE, "View
  Repair Steps", Report or the microphone, closes the toast or a modal, the speech recognition
  reports, and a suspended request resolves. A button that is \<open>disabled\<close> or not rendered does
  nothing.
\<close>

datatype event =
    CameraStarted
  | CameraDenied
  | AuthState "string option"
  | TypeContext string
  | ClickSafety
  | ClickDiagnose
  | ClickRepair
  | SubmitText
  | ClickReport
  | ClickMicrophone
  | VoiceResult string
  | VoiceError
  | VoiceEnd
  | CloseToast
  | CloseRepairModal
  | CloseReportModal
  | FetchDone fetch_outcome
  | ReportFetchDone report_outcome

definition step :: "config \<Rightarrow> reads \<Rightarrow> event \<Rightarrow> app_state \<Rightarrow> app_state" where
  "step cfg rd ev s =
    (case ev of
       CameraStarted \<Rightarrow> s\<lparr>isStreamActive := True\<rparr>
     | CameraDenied \<Rightarrow> addLog rd ''ERROR'' ''Camera access denied. Check permissions.'' ''error'' s
     | AuthState u \<Rightarrow> s\<lparr>user := u\<rparr>
     | TypeContext v \<Rightarrow> s\<lparr>userContext := v\<rparr>
     | ClickSafety \<Rightarrow>
         if \<not> isStreamActive s \<or> analyzing s then s
         else callOmniTech_begin cfg rd (current_closure s) safety_check []
                (s\<lparr>activeTab := ''safety''\<rparr>)
     | ClickDiagnose \<Rightarrow>
         if \<not> isStreamActive s \<or> analyzing s
            \<or> systemState s = ''DANGER'' \<or> systemState s = ''UNCERTAIN'' then s
         else callOmniTech_begin cfg rd (current_closure s) diagnosis []
                (s\<lparr>activeTab := ''diagnose''\<rparr>)
     | ClickRepair \<Rightarrow>
         (case currentAnalysis s of
            None \<Rightarrow> s
          | Some a \<Rightarrow>
              if analyzing s \<or> status a \<noteq> Some ''SAFE'' then s
              else callOmniTech_begin cfg rd (current_closure s) repair_guide [] s)
     | SubmitText \<Rightarrow> submitTextDiagnosis cfg rd s
     | ClickReport \<Rightarrow>
         if length (logs s) < 2 \<or> generatingReport s then s
         else generateFieldReport_begin cfg rd s
     | ClickMicrophone \<Rightarrow> toggleListening cfg s
     | VoiceResult heard \<Rightarrow>
         (case recognition s of
            None \<Rightarrow> s
          | Some cl \<Rightarrow> onresult cfg rd cl heard s)
     | VoiceError \<Rightarrow>
         s\<lparr>isListening := False,
           toast := Some \<lparr>toast_message = ''Voice input failed. Try again.'',
                          toast_type = ''error''\<rparr>\<rparr>
     | VoiceEnd \<Rightarrow> s\<lparr>isListening := False\<rparr>
     | CloseToast \<Rightarrow> s\<lparr>toast := None\<rparr>
     | CloseRepairModal \<Rightarrow> s\<lparr>showRepairModal := False\<rparr>
     | CloseReportModal \<Rightarrow> s\<lparr>showReportModal := False\<rparr>
     | FetchDone out \<Rightarrow>
         (case pending s of
            None \<Rightarrow> s
          | Some p \<Rightarrow> callOmniTech_resume cfg rd p out s)
     | ReportFetchDone out \<Rightarrow>
         (case report_pending s of
            None \<Rightarrow> s
          | Some ls \<Rightarrow> generateFieldReport_resume rd ls out s))"

fun run :: "config \<Rightarrow> (reads \<times> event) list \<Rightarrow> app_state \<Rightarrow> app_state" where
  "run cfg [] s = s"
| "run cfg ((rd, ev) # evs) s = run cfg evs (step cfg rd ev s)"

subsection \<open>The admission rules as the specification lists them\<close>

text \<open>
  Section 4.1 of the specification: three rules, evaluated in order, the first failing rule
  determines the rejection. \<open>tryAdmit_spec\<close> follows those words and is compared with
  \<open>canCallNow\<close> below.
\<close>

datatype rule = InFlightLock | Cooldown | SlidingCap

definition rule_fails :: "int \<Rightarrow> app_state \<Rightarrow> rule \<Rightarrow> bool" where
  "rule_fails now s r =
    (case r of
       InFlightLock \<Rightarrow> inFlight s
     | Cooldown \<Rightarrow> now - lastCallAt s < COOLDOWN_MS
     | SlidingCap \<Rightarrow>
         length (filter (\<lambda>t. now - 60000 < t) (callTimestamps s)) \<ge> MAX_CALLS_PER_MIN)"

definition rule_reason :: "int \<Rightarrow> app_state \<Rightarrow> rule \<Rightarrow> string" where
  "rule_reason now s r =
    (case r of
       InFlightLock \<Rightarrow> ''Request in progress...''
     | Cooldown \<Rightarrow> ''Cooldown: wait '' @ show_int (wait_seconds (now - lastCallAt s)) @ ''s''
     | SlidingCap \<Rightarrow> ''Rate limit: too many requests/min'')"

definition tryAdmit_spec :: "int \<Rightarrow> app_state \<Rightarrow> guard" where
  "tryAdmit_spec now s =
    (case find (rule_fails now s) [InFlightLock, Cooldown, SlidingCap] of
       None \<Rightarrow> Ok
     | Some r \<Rightarrow> Reject (rule_reason now s r))"

subsection \<open>Vocabulary of the statements\<close>

text \<open>
  What the interface shows of a result: a repair guide fills the repair-steps surface and opens
  its modal; any other result becomes the current analysis and sets the safety state.
\<close>

definition surfaced :: "mode \<Rightarrow> analysis_result \<Rightarrow> app_state \<Rightarrow> bool" where
  "surfaced m r s =
    (if m = repair_guide then repairSteps s = repair_steps r \<and> showRepairModal s
     else currentAnalysis s = Some r \<and> systemState s = or_else (status r) ''UNCERTAIN'')"

text \<open>The results that came from a successful answer of the inference service, in order.\<close>

fun genuine :: "event \<Rightarrow> analysis_result list" where
  "genuine (FetchDone (Response r)) =
     (if response_ok r
      then (case json_body r of JsonText (Some res) \<Rightarrow> [res] | _ \<Rightarrow> [])
      else [])"
| "genuine _ = []"

definition genuine_results :: "(reads \<times> event) list \<Rightarrow> analysis_result list" where
  "genuine_results evs = concat (map (\<lambda>(rd, ev). genuine ev) evs)"

text \<open>
  The clock never runs backwards: every reading of \<open>Date.now()\<close> is at least the one before
  it, within a handler and from one handler to the next. \<open>L\<close> is the last reading so far.
\<close>

fun clock_ok :: "int \<Rightarrow> (reads \<times> event) list \<Rightarrow> bool" where
  "clock_ok L [] = True"
| "clock_ok L ((rd, ev) # evs) =
     (L \<le> date_now rd \<and> date_now rd \<le> date_now2 rd \<and> clock_ok (date_now2 rd) evs)"

text \<open>The two bounds on a list of admission times.\<close>

definition windows_ok :: "int list \<Rightarrow> bool" where
  "windows_ok ts =
    ((\<forall>a. length (filter (\<lambda>t. a \<le> t \<and> t < a + COOLDOWN_MS) ts) \<le> 1)
     \<and> (\<forall>T. length (filter (\<lambda>t. T - 60000 < t \<and> t \<le> T) ts) \<le> MAX_CALLS_PER_MIN))"

text \<open>
  What one handler can do to the rate guard's refs: leave them (possibly pruning the
  timestamps), or record an admission.
\<close>

definition guard_moves :: "reads \<Rightarrow> app_state \<Rightarrow> app_state \<Rightarrow> bool" where
  "guard_moves rd s s' =
    ((lastCallAt s' = lastCallAt s \<and> admitted s' = admitted s
        \<and> (callTimestamps s' = callTimestamps s
             \<or> callTimestamps s' = filter (\<lambda>t. date_now rd - 60000 < t) (callTimestamps s)))
     \<or> (COOLDOWN_MS \<le> date_now rd - lastCallAt s
        \<and> length (filter (\<lambda>t. date_now rd - 60000 < t) (callTimestamps s)) < MAX_CALLS_PER_MIN
        \<and> lastCallAt s' = date_now2 rd
        \<and> callTimestamps s'
            = filter (\<lambda>t. date_now rd - 60000 < t) (callTimestamps s) @ [date_now2 rd]
        \<and> admitted s' = admitted s @ [date_now2 rd]))"

text \<open>
  The invariant behind the two bounds: every admission so far is no later than the clock and
  than \<open>lastCallAtRef\<close>, and above any threshold that pruning can still use, the pruned ref
  holds at least as many timestamps as were admitted.
\<close>

definition guard_inv :: "int \<Rightarrow> app_state \<Rightarrow> bool" where
  "guard_inv L s =
    ((\<forall>t \<in> set (admitted s). t \<le> L \<and> t \<le> lastCallAt s)
     \<and> (\<forall>th. L - 60000 \<le> th \<longrightarrow>
           length (filter (\<lambda>t. th < t) (admitted s))
             \<le> length (filter (\<lambda>t. th < t) (callTimestamps s))))"

subsection \<open>Concrete inputs for the scenarios\<close>

definition sample_config :: config where
  "sample_config = \<lparr>API_KEY = Some ''key'', db = True, speech_recognition = True\<rparr>"

definition sample_reads :: "int \<Rightarrow> reads" where
  "sample_reads t = \<lparr>date_now = t, date_now2 = t, time_string = ''10:00:00'',
     date_string = ''1/1/2026, 10:00:00'', frame = Captured (Some ''frame'')\<rparr>"

definition sample_reads_no_frame :: "int \<Rightarrow> reads" where
  "sample_reads_no_frame t = (sample_reads t)\<lparr>frame := Captured None\<rparr>"

definition sample_reads_capture_throws :: "int \<Rightarrow> reads" where
  "sample_reads_capture_throws t = (sample_reads t)\<lparr>frame := CaptureThrows\<rparr>"

definition keyless_config :: config where
  "keyless_config = \<lparr>API_KEY = None, db = True, speech_recognition = True\<rparr>"

definition refusal :: analysis_result where
  "refusal = \<lparr>status = Some ''DANGER'', headline = Some ''Exposed live wire'',
     reasoning = Some ''A bare conductor is visible next to the terminal block.'',
     action_required = Some ''Stop and isolate the supply.'', repair_steps = None\<rparr>"

definition quota_response :: fetch_outcome where
  "quota_response = Response \<lparr>http_status = 429, text_body = Some ''quota'', json_body = JsonThrows\<rparr>"

definition answer :: "analysis_result \<Rightarrow> fetch_outcome" where
  "answer r = Response \<lparr>http_status = 200, text_body = None, json_body = JsonText (Some r)\<rparr>"

text \<open>Log entries: a recent one, and an old one whose message is a single hash sign.\<close>

definition recent_entry :: log_entry where
  "recent_entry = \<lparr>source = ''SYSTEM'', message = ''Optics initialised'', time = ''10:00:00''\<rparr>"

definition oldest_entry :: log_entry where
  "oldest_entry = \<lparr>source = ''SYSTEM'', message = ''#'', time = ''09:00:00''\<rparr>"

text \<open>
  A session that ends in \<open>DANGER\<close> with a question typed into the text field: the camera comes
  up, a SAFETY click is answered with a refusal, the user types.
\<close>

definition danger_run :: "(reads \<times> event) list" where
  "danger_run =
    [(sample_reads 4000, CameraStarted),
     (sample_reads 5000, ClickSafety),
     (sample_reads 5400, FetchDone (answer refusal)),
     (sample_reads 7000, TypeContext ''why is it sparking'')]"

definition danger_state :: app_state where
  "danger_state = run sample_config danger_run initial_state"

text \<open>
  What the "View Repair Steps" button relies on: a current analysis with status \<open>SAFE\<close> is
  only ever shown while the safety state is \<open>SAFE\<close>.
\<close>

definition safe_shown :: "app_state \<Rightarrow> bool" where
  "safe_shown s =
    (Option.bind (currentAnalysis s) status \<noteq> Some ''SAFE'' \<or> systemState s = ''SAFE'')"

text \<open>
  A session in which the frame capture throws: the camera comes up and a SAFETY click is
  admitted, then \<open>captureFrame()\<close> raises.
\<close>

definition stuck_state :: app_state where
  "stuck_state =
     run sample_config
       [(sample_reads 4000, CameraStarted), (sample_reads_capture_throws 5000, ClickSafety)]
       initial_state"

text \<open>
  A session without an API key: the camera comes up and a SAFETY click is served by the demo
  generator.
\<close>

definition keyless_state :: app_state where
  "keyless_state =
     run keyless_config
       [(sample_reads 4000, CameraStarted), (sample_reads 5000, ClickSafety)] initial_state"

text \<open>
  A session: the camera comes up, a SAFETY click is answered with a refusal, a second click
  comes one second after the first and a third three seconds after it.
\<close>

definition sample_run :: "(reads \<times> event) list" where
  "sample_run =
    [(sample_reads 4000, CameraStarted),
     (sample_reads 5000, ClickSafety),
     (sample_reads 5400, FetchDone (answer refusal)),
     (sample_reads 6000, ClickSafety),
     (sample_reads 8000, ClickSafety)]"

section \<open>Properties\<close>

subsection \<open>Rounding of the cooldown wait\<close>

lemma wait_seconds_eval: "wait_seconds d = - ((d - COOLDOWN_MS) div 1000)"
  unfolding wait_seconds_def using ceiling_divide_eq_div [of "COOLDOWN_MS - d" 1000] by simp

lemma wait_seconds_bounds:
  "1000 * (wait_seconds d - 1) < COOLDOWN_MS - d \<and> COOLDOWN_MS - d \<le> 1000 * wait_seconds d"
proof -
  define k where "k = d - COOLDOWN_MS"
  define q where "q = k div 1000"
  define r where "r = k mod 1000"
  have split: "k = 1000 * q + r"
    by (simp add: q_def r_def)
  have lo: "0 \<le> r" and hi: "r < 1000"
    by (simp_all add: r_def)
  have w: "wait_seconds d = - q"
    by (simp add: wait_seconds_eval k_def q_def)
  have c: "COOLDOWN_MS - d = - k"
    by (simp add: k_def)
  show ?thesis
    unfolding w c using split lo hi by simp
qed

text \<open>
  C6. \<open>canCallNow\<close> decides as the ordered rule list does: the in-flight lock, then the cooldown,
  then the per-minute cap, and the first rule that fails gives the reason. The number of seconds
  a cooldown rejection reports is the remaining time \<open>COOLDOWN_MS - delta\<close> rounded up to whole
  seconds: it is the least \<open>w\<close> with \<open>COOLDOWN_MS - delta \<le> 1000 * w\<close>.
\<close>

theorem canCallNow_rule_order:
  "fst (canCallNow now s) = tryAdmit_spec now s
   \<and> 1000 * (wait_seconds d - 1) < COOLDOWN_MS - d
   \<and> COOLDOWN_MS - d \<le> 1000 * wait_seconds d"
  using wait_seconds_bounds [of d]
  by (simp add: canCallNow_def tryAdmit_spec_def rule_fails_def rule_reason_def Let_def)

subsection \<open>Frame lemmas\<close>

lemma addLog_eq:
  "addLog rd src msg typ s =
     s\<lparr>logs := \<lparr>source = src, message = msg, time = time_string rd\<rparr> # logs s,
       toast := (if typ = ''error'' \<or> src = ''ERROR''
                 then Some \<lparr>toast_message = msg, toast_type = ''error''\<rparr> else toast s)\<rparr>"
  by (simp add: addLog_def Let_def)

lemma handleAnalysisResult_keeps [simp]:
  "inFlight (handleAnalysisResult cfg rd usr r m k s) = inFlight s"
  "pending (handleAnalysisResult cfg rd usr r m k s) = pending s"
  "lastCallAt (handleAnalysisResult cfg rd usr r m k s) = lastCallAt s"
  "callTimestamps (handleAnalysisResult cfg rd usr r m k s) = callTimestamps s"
  "admitted (handleAnalysisResult cfg rd usr r m k s) = admitted s"
  "requests (handleAnalysisResult cfg rd usr r m k s) = requests s"
  "saved (handleAnalysisResult cfg rd usr r m True s) = saved s"
  by (simp_all add: handleAnalysisResult_def addLog_eq speak_def Let_def split: option.splits)

lemma handleAnalysisResult_logs:
  "length (logs (handleAnalysisResult cfg rd usr r m k s)) =
     length (logs s) + (if m = repair_guide \<and> repair_steps r \<noteq> None then 0 else 1)"
  by (simp add: handleAnalysisResult_def addLog_eq speak_def Let_def split: option.splits)

lemma resume_clears:
  "inFlight (callOmniTech_resume cfg rd p out s) = False
   \<and> analyzing (callOmniTech_resume cfg rd p out s) = False
   \<and> pending (callOmniTech_resume cfg rd p out s) = None"
  by (simp add: callOmniTech_resume_def connection_failed_def finish_def addLog_eq Let_def
      split: fetch_outcome.splits option.splits json_outcome.splits)

lemma canCallNow_fields [simp]:
  "inFlight (snd (canCallNow now s)) = inFlight s"
  "pending (snd (canCallNow now s)) = pending s"
  "lastCallAt (snd (canCallNow now s)) = lastCallAt s"
  "admitted (snd (canCallNow now s)) = admitted s"
  "saved (snd (canCallNow now s)) = saved s"
  "requests (snd (canCallNow now s)) = requests s"
  "logs (snd (canCallNow now s)) = logs s"
  by (simp_all add: canCallNow_def Let_def)

lemma not_in_progress:
  "\<not> inFlight s \<Longrightarrow> fst (canCallNow now s) \<noteq> Reject ''Request in progress...''"
  by (simp add: canCallNow_def Let_def)

lemma begin_sync_clears:
  assumes "fst (canCallNow (date_now rd) s) = Ok"
    and "\<not> truthy (API_KEY cfg) \<or> (frame rd = Captured f \<and> \<not> truthy f)"
  shows "inFlight (callOmniTech_begin cfg rd cl m ctx s) = False"
  using assms
  by (cases "canCallNow (date_now rd) s")
     (auto simp add: callOmniTech_begin_def addLog_eq Let_def split: capture.splits)

text \<open>
  The exits that do release the flag: every outcome of the resolved request, and before the
  request the missing key and the frame that is not ready.
\<close>

lemma flag_released_on_handled_exits:
  "inFlight (callOmniTech_resume cfg rd p out s) = False
   \<and> fst (canCallNow now (callOmniTech_resume cfg rd p out s)) \<noteq> Reject ''Request in progress...''
   \<and> (fst (canCallNow (date_now rd) s) = Ok
        \<and> (\<not> truthy (API_KEY cfg) \<or> (frame rd = Captured f \<and> \<not> truthy f))
        \<longrightarrow> inFlight (callOmniTech_begin cfg rd cl m ctx s) = False)"
  using resume_clears [of cfg rd p out s] begin_sync_clears [of rd s cfg f cl m ctx]
    not_in_progress [of "callOmniTech_resume cfg rd p out s" now]
  by simp

text \<open>
  The exit that does not: an admitted call with a key whose frame capture throws ends with the
  flag set and nothing suspended.
\<close>

lemma capture_exception_leaves_flag:
  assumes "fst (canCallNow (date_now rd) s) = Ok"
    and "truthy (API_KEY cfg)" and "frame rd = CaptureThrows"
  shows "inFlight (callOmniTech_begin cfg rd cl m ctx s)
    \<and> analyzing (callOmniTech_begin cfg rd cl m ctx s)
    \<and> pending (callOmniTech_begin cfg rd cl m ctx s) = pending s
    \<and> logs (callOmniTech_begin cfg rd cl m ctx s) = logs s
    \<and> requests (callOmniTech_begin cfg rd cl m ctx s) = requests s"
proof -
  obtain g s1 where g: "canCallNow (date_now rd) s = (g, s1)"
    by (cases "canCallNow (date_now rd) s")
  have "pending s1 = pending s" "logs s1 = logs s" "requests s1 = requests s"
    using canCallNow_fields(2,7,6) [of "date_now rd" s] g by simp_all
  then show ?thesis
    using assms g by (simp add: callOmniTech_begin_def Let_def)
qed

text \<open>
  Once the flag is set with nothing suspended, no event clears it: every later call is turned
  away by the in-flight rule, and there is no request whose resolution would reset the flag.
\<close>

lemma begin_stays_stuck:
  assumes "inFlight s" and "pending s = None"
  shows "inFlight (callOmniTech_begin cfg rd cl m ctx s)
    \<and> pending (callOmniTech_begin cfg rd cl m ctx s) = None
    \<and> requests (callOmniTech_begin cfg rd cl m ctx s) = requests s"
  using assms by (simp add: callOmniTech_begin_def canCallNow_def)

lemma step_stays_stuck:
  assumes "inFlight s" and "pending s = None"
  shows "inFlight (step cfg rd ev s) \<and> pending (step cfg rd ev s) = None
    \<and> requests (step cfg rd ev s) = requests s"
proof (cases ev)
  case ClickSafety
  then show ?thesis
    using assms begin_stays_stuck [where s = "s\<lparr>activeTab := ''safety''\<rparr>"]
    by (simp add: step_def)
next
  case ClickDiagnose
  then show ?thesis
    using assms begin_stays_stuck [where s = "s\<lparr>activeTab := ''diagnose''\<rparr>"]
    by (simp add: step_def)
next
  case ClickRepair
  then show ?thesis
    using assms begin_stays_stuck [where s = s]
    by (simp add: step_def split: option.splits)
next
  case SubmitText
  then show ?thesis
    using assms
      begin_stays_stuck [where s = "s\<lparr>toast := Some \<lparr>toast_message = ''Context sent.'',
        toast_type = ''success''\<rparr>\<rparr>"]
    by (simp add: step_def submitTextDiagnosis_def Let_def)
next
  case ClickReport
  then show ?thesis
    using assms
    by (simp add: step_def generateFieldReport_begin_def addLog_eq Let_def)
next
  case (FetchDone out)
  then show ?thesis
    using assms by (simp add: step_def)
next
  case (ReportFetchDone out)
  then show ?thesis
    using assms
    by (simp add: step_def generateFieldReport_resume_def report_failed_def report_done_def
        addLog_eq Let_def split: option.splits report_outcome.splits)
next
  case (VoiceResult heard)
  then show ?thesis
    using assms
      begin_stays_stuck [where s = "s\<lparr>toast := Some \<lparr>toast_message =
        ''Heard: '' @ [CHR 0x22] @ trim heard @ [CHR 0x22], toast_type = ''success''\<rparr>\<rparr>"]
    by (simp add: step_def onresult_def Let_def split: option.splits)
qed (use assms in \<open>simp_all add: step_def toggleListening_def addLog_eq\<close>)

lemma run_stays_stuck:
  "inFlight s \<Longrightarrow> pending s = None \<Longrightarrow>
   inFlight (run cfg evs s) \<and> pending (run cfg evs s) = None
     \<and> requests (run cfg evs s) = requests s"
proof (induction evs arbitrary: s)
  case Nil
  then show ?case by simp
next
  case (Cons e evs)
  obtain rd ev where e: "e = (rd, ev)" by (cases e)
  have st: "inFlight (step cfg rd ev s)" "pending (step cfg rd ev s) = None"
      "requests (step cfg rd ev s) = requests s"
    using step_stays_stuck [OF Cons.prems] by simp_all
  show ?case
    using Cons.IH [OF st(1,2)] st(3) unfolding e by simp
qed

lemma stuck_state_eval:
  "inFlight stuck_state \<and> analyzing stuck_state \<and> pending stuck_state = None
   \<and> logs stuck_state = [] \<and> requests stuck_state = [] \<and> isStreamActive stuck_state
   \<and> admitted stuck_state = [5000]"
  by (simp add: stuck_state_def step_def canCallNow_def callOmniTech_begin_def
      sample_config_def sample_reads_capture_throws_def sample_reads_def initial_state_def
      truthy_def current_closure_def COOLDOWN_MS_def MAX_CALLS_PER_MIN_def Let_def)

text \<open>
  C2, at the input where the code departs from it. In the session \<open>stuck_state\<close> a SAFETY click
  is admitted and \<open>captureFrame()\<close> throws. The call is over, yet \<open>inFlightRef\<close> is still true,
  with no request suspended and no log entry written. An hour later the rate guard still
  answers "Request in progress...": the SAFETY button is disabled, since \<open>analyzing\<close> stays
  true as well, and a question typed and sent from the text field gets that toast and issues
  no request.
\<close>

theorem capture_exception_keeps_flag:
  "inFlight stuck_state
   \<and> pending stuck_state = None
   \<and> logs stuck_state = []
   \<and> requests stuck_state = []
   \<and> fst (canCallNow 3605000 stuck_state) = Reject ''Request in progress...''
   \<and> step sample_config (sample_reads 3605000) ClickSafety stuck_state = stuck_state
   \<and> toast (run sample_config
         [(sample_reads 3605000, TypeContext ''hello''),
          (sample_reads 3606000, SubmitText)] stuck_state)
       = Some \<lparr>toast_message = ''Request in progress...'', toast_type = ''error''\<rparr>
   \<and> requests (run sample_config
         [(sample_reads 3605000, TypeContext ''hello''),
          (sample_reads 3606000, SubmitText)] stuck_state) = []"
proof -
  note e = stuck_state_eval
  have sp: "trim ''hello'' = ''hello''"
    by (simp add: trim_def strip.simps white_space_def)
  have a: "fst (canCallNow 3605000 stuck_state) = Reject ''Request in progress...''"
    using e by (simp add: canCallNow_def)
  have b: "step sample_config (sample_reads 3605000) ClickSafety stuck_state = stuck_state"
    using e by (simp add: step_def)
  have c: "toast (run sample_config
         [(sample_reads 3605000, TypeContext ''hello''),
          (sample_reads 3606000, SubmitText)] stuck_state)
       = Some \<lparr>toast_message = ''Request in progress...'', toast_type = ''error''\<rparr>
     \<and> requests (run sample_config
         [(sample_reads 3605000, TypeContext ''hello''),
          (sample_reads 3606000, SubmitText)] stuck_state) = []"
    using e sp
    by (simp add: step_def submitTextDiagnosis_def callOmniTech_begin_def canCallNow_def)
  show ?thesis
    using e a b c by simp
qed

theorem capture_exception_keeps_flag_witness:
  "inFlight stuck_state
   \<and> pending stuck_state = None
   \<and> inFlight (run sample_config
        [(sample_reads 3605000, TypeContext ''hello''),
         (sample_reads 3606000, SubmitText)] stuck_state)"
proof -
  note t = capture_exception_keeps_flag
  have f: "inFlight stuck_state" and p: "pending stuck_state = None"
    using t [THEN conjunct1] t [THEN conjunct2, THEN conjunct1] by simp_all
  from run_stays_stuck [OF f p] f p
  show ?thesis
    by blast
qed

lemma mod3_cases: "(n::nat) mod 3 = 0 \<or> n mod 3 = 1 \<or> n mod 3 = 2"
  by arith

lemma getDemoResult_nonempty:
  "status (getDemoResult m n) \<in> {Some ''SAFE'', Some ''DANGER'', Some ''UNCERTAIN''}
   \<and> truthy (headline (getDemoResult m n))
   \<and> truthy (reasoning (getDemoResult m n))
   \<and> truthy (action_required (getDemoResult m n))"
  using mod3_cases [of n]
  by (auto simp add: getDemoResult_def demo_def truthy_def Let_def)

lemma getDemoResult_steps:
  "\<exists>st sts. repair_steps (getDemoResult repair_guide n) = Some (st # sts)"
  using mod3_cases [of n]
  by (auto simp add: getDemoResult_def demo_def Let_def)

text \<open>
  C3. When the service answers 429, the call takes the demo result for its mode and rotation
  step. That result has one of the three statuses and a non-empty headline, reasoning and
  action; it goes through \<open>handleAnalysisResult\<close> and is what the interface then shows. The
  toast left behind is the success toast, the log gains the error line, the tip and (outside
  repair mode) the result's line, and the call ends with the flag released.
\<close>

theorem quota_fallback:
  "status (getDemoResult (p_mode p) (p_demoStep p)) \<in> {Some ''SAFE'', Some ''DANGER'', Some ''UNCERTAIN''}
   \<and> truthy (headline (getDemoResult (p_mode p) (p_demoStep p)))
   \<and> truthy (reasoning (getDemoResult (p_mode p) (p_demoStep p)))
   \<and> truthy (action_required (getDemoResult (p_mode p) (p_demoStep p)))
   \<and> surfaced (p_mode p) (getDemoResult (p_mode p) (p_demoStep p))
        (callOmniTech_resume cfg rd p (Response (r\<lparr>http_status := 429\<rparr>)) s)
   \<and> toast (callOmniTech_resume cfg rd p (Response (r\<lparr>http_status := 429\<rparr>)) s)
       = Some \<lparr>toast_message = ''Quota hit '' @ em_dash @ '' demo fallback enabled.'',
              toast_type = ''success''\<rparr>
   \<and> map source (logs (callOmniTech_resume cfg rd p (Response (r\<lparr>http_status := 429\<rparr>)) s))
       = (if p_mode p = repair_guide then [] else [''OMNITECH''])
         @ [''SYSTEM'', ''ERROR''] @ map source (logs s)
   \<and> demoStep (callOmniTech_resume cfg rd p (Response (r\<lparr>http_status := 429\<rparr>)) s) = demoStep s + 1
   \<and> inFlight (callOmniTech_resume cfg rd p (Response (r\<lparr>http_status := 429\<rparr>)) s) = False"
proof -
  obtain st sts where steps: "repair_steps (getDemoResult repair_guide (p_demoStep p)) = Some (st # sts)"
    using getDemoResult_steps by blast
  show ?thesis
    using getDemoResult_nonempty [of "p_mode p" "p_demoStep p"] steps
    by (simp add: callOmniTech_resume_def surfaced_def DEMO_MODE_def finish_def
        handleAnalysisResult_def addLog_eq speak_def Let_def split: option.splits)
qed

subsection \<open>What reaches the event store\<close>

lemma begin_saved: "saved (callOmniTech_begin cfg rd cl m ctx s) = saved s"
  by (cases "canCallNow (date_now rd) s")
     (auto simp add: callOmniTech_begin_def addLog_eq Let_def split: guard.splits capture.splits
        dest: arg_cong [where f = "\<lambda>x. saved (snd x)"])

lemma handleAnalysisResult_saved:
  "\<exists>docs. saved (handleAnalysisResult cfg rd usr res m k s) = saved s @ docs
     \<and> subseq (map doc_result docs) [res]"
  by (cases usr)
     (auto simp add: handleAnalysisResult_def addLog_eq speak_def Let_def)

lemma resume_saved:
  "\<exists>docs. saved (callOmniTech_resume cfg rd p out s) = saved s @ docs
     \<and> subseq (map doc_result docs) (genuine (FetchDone out))"
proof (cases out)
  case FetchThrows
  then show ?thesis
    by (simp add: callOmniTech_resume_def connection_failed_def finish_def addLog_eq)
next
  case (Response r)
  consider (quota) "http_status r = 429"
    | (bad) "http_status r \<noteq> 429" "\<not> response_ok r"
    | (good) "http_status r \<noteq> 429" "response_ok r"
    by blast
  then show ?thesis
  proof cases
    case quota
    then show ?thesis
      using Response
      by (simp add: callOmniTech_resume_def DEMO_MODE_def finish_def addLog_eq Let_def)
  next
    case bad
    then show ?thesis
      using Response
      by (simp add: callOmniTech_resume_def connection_failed_def finish_def addLog_eq
          split: option.splits)
  next
    case good
    show ?thesis
    proof (cases "json_body r")
      case (JsonText parsed)
      show ?thesis
      proof (cases parsed)
        case None
        then show ?thesis
          using Response good JsonText
          by (simp add: callOmniTech_resume_def finish_def addLog_eq)
      next
        case (Some res)
        obtain docs where
          "saved (handleAnalysisResult cfg rd (p_user p) res (p_mode p) False s) = saved s @ docs"
          "subseq (map doc_result docs) [res]"
          using handleAnalysisResult_saved by blast
        then show ?thesis
          using Response good JsonText Some
          by (simp add: callOmniTech_resume_def finish_def Let_def)
      qed
    qed (use Response good in
          \<open>simp_all add: callOmniTech_resume_def connection_failed_def finish_def addLog_eq\<close>)
  qed
qed

lemma step_saved:
  "\<exists>docs. saved (step cfg rd ev s) = saved s @ docs
     \<and> subseq (map doc_result docs) (genuine ev)"
proof (cases ev)
  case (FetchDone out)
  then show ?thesis
    using resume_saved [of cfg rd _ out s]
    by (cases "pending s") (simp_all add: step_def)
next
  case ClickReport
  then show ?thesis
    by (simp add: step_def generateFieldReport_begin_def addLog_eq Let_def)
next
  case (ReportFetchDone out)
  then show ?thesis
    by (simp add: step_def generateFieldReport_resume_def report_failed_def report_done_def
        addLog_eq Let_def split: option.splits report_outcome.splits)
qed (simp_all add: step_def submitTextDiagnosis_def onresult_def toggleListening_def begin_saved
      addLog_eq Let_def split: option.splits)

lemma run_saved:
  "\<exists>docs. saved (run cfg evs s) = saved s @ docs
     \<and> subseq (map doc_result docs) (genuine_results evs)"
proof (induction evs arbitrary: s)
  case Nil
  then show ?case by (simp add: genuine_results_def)
next
  case (Cons e evs)
  obtain rd ev where e: "e = (rd, ev)" by (cases e)
  obtain d1 where d1: "saved (step cfg rd ev s) = saved s @ d1"
      "subseq (map doc_result d1) (genuine ev)"
    using step_saved by blast
  obtain d2 where d2: "saved (run cfg evs (step cfg rd ev s)) = saved (step cfg rd ev s) @ d2"
      "subseq (map doc_result d2) (genuine_results evs)"
    using Cons.IH by blast
  have "subseq (map doc_result (d1 @ d2)) (genuine ev @ genuine_results evs)"
    using d1(2) d2(2) by (simp add: list_emb_append_mono)
  then show ?case
    using d1(1) d2(1) unfolding e by (auto simp add: genuine_results_def)
qed

text \<open>
  C4. Along every run of the component, what is handed to \<open>addDoc\<close> is, in order, a
  subsequence of the results parsed from successful answers of the inference service: each
  stored document has such an answer of its own behind it. The 429 fallback stores nothing, and
  no path of \<open>callOmniTech\<close> before the request (the missing-key demo among them) stores
  anything.
\<close>

theorem synthetic_never_persisted:
  "(\<exists>docs. saved (run cfg evs s) = saved s @ docs
       \<and> subseq (map doc_result docs) (genuine_results evs))
   \<and> saved (callOmniTech_resume cfg rd p (Response (r\<lparr>http_status := 429\<rparr>)) s) = saved s
   \<and> saved (callOmniTech_begin cfg rd cl m ctx s) = saved s"
proof -
  have "saved (callOmniTech_resume cfg rd p (Response (r\<lparr>http_status := 429\<rparr>)) s) = saved s"
    by (simp add: callOmniTech_resume_def DEMO_MODE_def finish_def addLog_eq Let_def)
  then show ?thesis
    using run_saved begin_saved by simp
qed

subsection \<open>Results, log entries and the missing key\<close>

lemma canCallNow_more [simp]:
  "demoStep (snd (canCallNow now s)) = demoStep s"
  "user (snd (canCallNow now s)) = user s"
  "systemState (snd (canCallNow now s)) = systemState s"
  "currentAnalysis (snd (canCallNow now s)) = currentAnalysis s"
  "repairSteps (snd (canCallNow now s)) = repairSteps s"
  "showRepairModal (snd (canCallNow now s)) = showRepairModal s"
  by (simp_all add: canCallNow_def Let_def)

lemma addLog_frame: "addLog (rd\<lparr>frame := f\<rparr>) src msg typ s = addLog rd src msg typ s"
  by (simp add: addLog_def)

lemma handleAnalysisResult_frame:
  "handleAnalysisResult cfg (rd\<lparr>frame := f\<rparr>) usr r m k s = handleAnalysisResult cfg rd usr r m k s"
  by (simp add: handleAnalysisResult_def addLog_frame Let_def cong: if_cong)

text \<open>
  C5, as the code has it. A result handled in repair mode that carries a \<open>repair_steps\<close> value
  changes nothing but the repair-steps surface and its modal: the safety state, the current
  analysis, the log, the speech and the store are as before. The guard of
  \<open>handleAnalysisResult\<close> asks for that value: a repair-mode result without it is handled as
  any other classification and sets the safety state to its status.
\<close>

theorem repair_guide_result_with_steps:
  "handleAnalysisResult cfg rd usr (res\<lparr>repair_steps := Some steps\<rparr>) repair_guide skip s
     = s\<lparr>repairSteps := Some steps, showRepairModal := True\<rparr>
   \<and> systemState (handleAnalysisResult cfg rd usr (res\<lparr>repair_steps := Some steps\<rparr>)
        repair_guide skip s) = systemState s
   \<and> systemState (callOmniTech_resume cfg rd (p\<lparr>p_mode := repair_guide\<rparr>)
        (answer (res\<lparr>repair_steps := Some steps\<rparr>)) s) = systemState s
   \<and> repairSteps (callOmniTech_resume cfg rd (p\<lparr>p_mode := repair_guide\<rparr>)
        (answer (res\<lparr>repair_steps := Some steps\<rparr>)) s) = Some steps
   \<and> systemState (handleAnalysisResult cfg rd usr (res\<lparr>repair_steps := None\<rparr>)
        repair_guide skip s) = or_else (status res) ''UNCERTAIN''"
  by (simp add: handleAnalysisResult_def callOmniTech_resume_def answer_def response_ok_def
      finish_def addLog_eq speak_def Let_def split: option.splits)

text \<open>
  The claim as stated fails: in state \<open>SAFE\<close>, a repair-mode answer that refuses (status
  \<open>DANGER\<close>, no \<open>repair_steps\<close>) moves the safety state to \<open>DANGER\<close>.
\<close>

theorem repair_guide_refusal_changes_state:
  "systemState (initial_state\<lparr>systemState := ''SAFE''\<rparr>) = ''SAFE''
   \<and> systemState (callOmniTech_resume sample_config (sample_reads 5000)
        \<lparr>p_mode = repair_guide, p_demoStep = 0, p_user = None\<rparr> (answer refusal)
        (initial_state\<lparr>systemState := ''SAFE''\<rparr>)) = ''DANGER''"
  by (simp add: handleAnalysisResult_def callOmniTech_resume_def answer_def response_ok_def
      refusal_def initial_state_def or_else_def
      finish_def addLog_eq speak_def Let_def)

text \<open>
  C8, as the code has it. The number of entries one admitted call appends depends on its path.
  After the request: one for an exception thrown by the request or by the reading of its
  answer, for a non-429 error status, an error payload, an empty or a corrupt answer; for a
  parsed result one, or none when it is a repair-mode result with \<open>repair_steps\<close>; for a 429
  three, or two in repair mode. Before the request: two for the missing key (one in repair
  mode), one for the frame that is not ready, none when the request is sent, and none either
  when the frame capture throws, the exception leaving the call before anything is logged.
\<close>

theorem log_entries_per_call:
  "length (logs (callOmniTech_resume cfg rd p out s)) = length (logs s) +
     (case out of
        FetchThrows \<Rightarrow> 1
      | Response r \<Rightarrow>
          if http_status r = 429 then (if p_mode p = repair_guide then 2 else 3)
          else if \<not> response_ok r then 1
          else (case json_body r of
                  JsonText (Some res) \<Rightarrow>
                    (if p_mode p = repair_guide \<and> repair_steps res \<noteq> None then 0 else 1)
                | _ \<Rightarrow> 1))
   \<and> (fst (canCallNow (date_now rd) s) = Ok \<longrightarrow>
        length (logs (callOmniTech_begin cfg rd cl m ctx s)) = length (logs s) +
          (if \<not> truthy (API_KEY cfg) then (if m = repair_guide then 1 else 2)
           else (case frame rd of
                   CaptureThrows \<Rightarrow> 0
                 | Captured f \<Rightarrow> if \<not> truthy f then 1 else 0)))"
proof -
  obtain st sts where steps:
    "repair_steps (getDemoResult repair_guide (p_demoStep p)) = Some (st # sts)"
    using getDemoResult_steps by blast
  obtain st' sts' where steps':
    "repair_steps (getDemoResult repair_guide (c_demoStep cl)) = Some (st' # sts')"
    using getDemoResult_steps by blast
  have a: "length (logs (callOmniTech_resume cfg rd p out s)) = length (logs s) +
     (case out of
        FetchThrows \<Rightarrow> 1
      | Response r \<Rightarrow>
          if http_status r = 429 then (if p_mode p = repair_guide then 2 else 3)
          else if \<not> response_ok r then 1
          else (case json_body r of
                  JsonText (Some res) \<Rightarrow>
                    (if p_mode p = repair_guide \<and> repair_steps res \<noteq> None then 0 else 1)
                | _ \<Rightarrow> 1))"
    using steps
    by (simp add: callOmniTech_resume_def connection_failed_def finish_def DEMO_MODE_def
        handleAnalysisResult_logs addLog_eq Let_def
        split: fetch_outcome.splits option.splits json_outcome.splits)
  have b: "length (logs (callOmniTech_begin cfg rd cl m ctx s)) = length (logs s) +
          (if \<not> truthy (API_KEY cfg) then (if m = repair_guide then 1 else 2)
           else (case frame rd of
                   CaptureThrows \<Rightarrow> 0
                 | Captured f \<Rightarrow> if \<not> truthy f then 1 else 0))"
    if "fst (canCallNow (date_now rd) s) = Ok"
    using that steps' canCallNow_fields(7) [of "date_now rd" s]
    by (cases "canCallNow (date_now rd) s")
       (simp add: callOmniTech_begin_def handleAnalysisResult_logs addLog_eq Let_def
          split: capture.splits)
  show ?thesis
    using a b by blast
qed

theorem log_entries_per_call_witness:
  "fst (canCallNow (date_now (sample_reads_no_frame 5000)) initial_state) = Ok
   \<and> length (logs (callOmniTech_begin sample_config (sample_reads_no_frame 5000)
        (current_closure initial_state) safety_check [] initial_state)) = length (logs initial_state) + 1"
proof -
  have ok: "fst (canCallNow (date_now (sample_reads_no_frame 5000)) initial_state) = Ok"
    by (simp add: canCallNow_def sample_reads_no_frame_def sample_reads_def initial_state_def
        COOLDOWN_MS_def MAX_CALLS_PER_MIN_def)
  note inst = log_entries_per_call [where cfg = sample_config
      and rd = "sample_reads_no_frame 5000" and cl = "current_closure initial_state"
      and s = initial_state and m = safety_check
      and ctx = "[]"]
  from inst [THEN conjunct2, THEN mp, OF ok]
  have "length (logs (callOmniTech_begin sample_config (sample_reads_no_frame 5000)
        (current_closure initial_state) safety_check [] initial_state)) = length (logs initial_state) + 1"
    by (simp add: truthy_def sample_config_def sample_reads_no_frame_def)
  then show ?thesis
    using ok by blast
qed

text \<open>
  The claim as stated fails: a SAFETY click answered by a 429 leaves three entries in a log that
  was empty.
\<close>

theorem quota_fallback_logs_three:
  "length (logs (run sample_config
      [(sample_reads 5000, CameraStarted),
       (sample_reads 5000, ClickSafety),
       (sample_reads 5400, FetchDone quota_response)] initial_state)) = 3"
  by (simp add: step_def callOmniTech_begin_def callOmniTech_resume_def canCallNow_def
      sample_config_def sample_reads_def quota_response_def initial_state_def
      current_closure_def
      COOLDOWN_MS_def MAX_CALLS_PER_MIN_def DEMO_MODE_def truthy_def
      handleAnalysisResult_logs finish_def addLog_eq Let_def)

text \<open>
  C10, as the code has it. With no API key, \<open>callOmniTech\<close> issues no request and suspends
  nothing, stores nothing, and does the same whatever the camera gives. The rate guard comes
  first: for a call it has let through, the demo result for its mode and rotation step is what
  the interface shows, the log has the error line about the missing key (and the result's line
  outside repair mode), the rotation advances and the flag is released.
\<close>

theorem missing_key_demo:
  assumes "\<not> truthy (API_KEY cfg)"
  shows "requests (callOmniTech_begin cfg rd cl m ctx s) = requests s
   \<and> pending (callOmniTech_begin cfg rd cl m ctx s) = pending s
   \<and> saved (callOmniTech_begin cfg rd cl m ctx s) = saved s
   \<and> callOmniTech_begin cfg (rd\<lparr>frame := f\<rparr>) cl m ctx s = callOmniTech_begin cfg rd cl m ctx s
   \<and> (fst (canCallNow (date_now rd) s) = Ok \<longrightarrow>
        surfaced m (getDemoResult m (c_demoStep cl)) (callOmniTech_begin cfg rd cl m ctx s)
        \<and> map source (logs (callOmniTech_begin cfg rd cl m ctx s))
            = (if m = repair_guide then [] else [''OMNITECH'']) @ [''ERROR'']
              @ map source (logs s)
        \<and> demoStep (callOmniTech_begin cfg rd cl m ctx s) = demoStep s + 1
        \<and> inFlight (callOmniTech_begin cfg rd cl m ctx s) = False)"
proof -
  obtain g s1 where g: "canCallNow (date_now rd) s = (g, s1)"
    by (cases "canCallNow (date_now rd) s")
  have s1: "requests s1 = requests s" "pending s1 = pending s" "logs s1 = logs s"
      "demoStep s1 = demoStep s"
    using canCallNow_fields(6,2,7) [of "date_now rd" s] canCallNow_more(1) [of "date_now rd" s] g
    by simp_all
  obtain st sts where steps:
    "repair_steps (getDemoResult repair_guide (c_demoStep cl)) = Some (st # sts)"
    using getDemoResult_steps by blast
  have a: "requests (callOmniTech_begin cfg rd cl m ctx s) = requests s
     \<and> pending (callOmniTech_begin cfg rd cl m ctx s) = pending s"
    using assms g s1
    by (cases g) (simp_all add: callOmniTech_begin_def addLog_eq Let_def)
  have b: "callOmniTech_begin cfg (rd\<lparr>frame := f\<rparr>) cl m ctx s = callOmniTech_begin cfg rd cl m ctx s"
    using assms g
    by (cases g)
       (simp_all add: callOmniTech_begin_def handleAnalysisResult_frame addLog_frame Let_def)
  have c: "surfaced m (getDemoResult m (c_demoStep cl)) (callOmniTech_begin cfg rd cl m ctx s)
        \<and> map source (logs (callOmniTech_begin cfg rd cl m ctx s))
            = (if m = repair_guide then [] else [''OMNITECH'']) @ [''ERROR'']
              @ map source (logs s)
        \<and> demoStep (callOmniTech_begin cfg rd cl m ctx s) = demoStep s + 1
        \<and> inFlight (callOmniTech_begin cfg rd cl m ctx s) = False"
    if ok: "g = Ok"
  proof (cases "m = repair_guide")
    case True
    then show ?thesis
      using assms g s1 ok steps
      by (simp add: callOmniTech_begin_def surfaced_def handleAnalysisResult_def addLog_eq Let_def)
  next
    case False
    then show ?thesis
      using assms g s1 ok
      by (simp add: callOmniTech_begin_def surfaced_def handleAnalysisResult_def addLog_eq
          speak_def Let_def split: option.splits)
  qed
  show ?thesis
    using a b c g begin_saved by simp
qed

theorem missing_key_demo_witness:
  "\<not> truthy (API_KEY keyless_config)
   \<and> fst (canCallNow (date_now (sample_reads_no_frame 5000)) initial_state) = Ok
   \<and> requests (callOmniTech_begin keyless_config (sample_reads_no_frame 5000)
        (current_closure initial_state) diagnosis [] initial_state) = requests initial_state
   \<and> surfaced diagnosis (getDemoResult diagnosis (c_demoStep (current_closure initial_state)))
        (callOmniTech_begin keyless_config (sample_reads_no_frame 5000)
           (current_closure initial_state) diagnosis [] initial_state)"
proof -
  have nokey: "\<not> truthy (API_KEY keyless_config)"
    by (simp add: keyless_config_def truthy_def)
  have ok: "fst (canCallNow (date_now (sample_reads_no_frame 5000)) initial_state) = Ok"
    by (simp add: canCallNow_def sample_reads_no_frame_def sample_reads_def initial_state_def
        COOLDOWN_MS_def MAX_CALLS_PER_MIN_def)
  note inst = missing_key_demo [OF nokey, where rd = "sample_reads_no_frame 5000"
      and cl = "current_closure initial_state" and s = initial_state and m = diagnosis and ctx = "[]"]
  from inst [THEN conjunct1]
    inst [THEN conjunct2, THEN conjunct2, THEN conjunct2, THEN conjunct2, THEN mp, OF ok,
      THEN conjunct1]
  show ?thesis
    using nokey ok by blast
qed

lemma keyless_state_eval:
  "inFlight keyless_state = False \<and> lastCallAt keyless_state = 5000
   \<and> isStreamActive keyless_state \<and> analyzing keyless_state = False
   \<and> demoStep keyless_state = 1
   \<and> map source (logs keyless_state) = [''OMNITECH'', ''ERROR'']"
  by (simp add: keyless_state_def step_def canCallNow_def callOmniTech_begin_def
      handleAnalysisResult_def getDemoResult_def demo_def or_else_def
      addLog_eq speak_def keyless_config_def sample_reads_def initial_state_def truthy_def
      current_closure_def COOLDOWN_MS_def MAX_CALLS_PER_MIN_def Let_def)

text \<open>
  The claim as stated fails: without a key, a second SAFETY click one second after the first
  is turned away by the rate guard with the cooldown toast; no demo result is substituted, no
  log entry is written and the rotation does not advance.
\<close>

theorem keyless_call_in_cooldown:
  "\<not> truthy (API_KEY keyless_config)
   \<and> toast (step keyless_config (sample_reads 6000) ClickSafety keyless_state)
       = Some \<lparr>toast_message = ''Cooldown: wait 2s'', toast_type = ''error''\<rparr>
   \<and> logs (step keyless_config (sample_reads 6000) ClickSafety keyless_state) = logs keyless_state
   \<and> demoStep (step keyless_config (sample_reads 6000) ClickSafety keyless_state)
       = demoStep keyless_state
   \<and> currentAnalysis (step keyless_config (sample_reads 6000) ClickSafety keyless_state)
       = currentAnalysis keyless_state"
  using keyless_state_eval
  by (simp add: step_def canCallNow_def callOmniTech_begin_def keyless_config_def
      sample_reads_def truthy_def COOLDOWN_MS_def wait_seconds_eval show_int_def
      show_nat.simps digit_char_def Let_def)

subsection \<open>The rate guard over a session\<close>

lemma length_filter_imp:
  "(\<And>x. x \<in> set xs \<Longrightarrow> P x \<Longrightarrow> Q x) \<Longrightarrow> length (filter P xs) \<le> length (filter Q xs)"
  by (induction xs) auto

lemma filter_above_pruned:
  "(th0::int) \<le> th \<Longrightarrow> filter (\<lambda>t. th < t) (filter (\<lambda>t. th0 < t) xs) = filter (\<lambda>t. th < t) xs"
  by (induction xs) auto

lemma canCallNow_cases:
  assumes "canCallNow now s = (g, s1)"
  shows "lastCallAt s1 = lastCallAt s \<and> admitted s1 = admitted s
    \<and> (callTimestamps s1 = callTimestamps s
         \<or> callTimestamps s1 = filter (\<lambda>t. now - 60000 < t) (callTimestamps s))
    \<and> (g = Ok \<longrightarrow> COOLDOWN_MS \<le> now - lastCallAt s
          \<and> callTimestamps s1 = filter (\<lambda>t. now - 60000 < t) (callTimestamps s)
          \<and> length (filter (\<lambda>t. now - 60000 < t) (callTimestamps s)) < MAX_CALLS_PER_MIN)"
  using assms by (auto simp add: canCallNow_def Let_def split: if_splits)

lemma begin_admitted:
  "admitted (callOmniTech_begin cfg rd cl m ctx s)
     = admitted s @ (if fst (canCallNow (date_now rd) s) = Ok then [date_now2 rd] else [])"
proof -
  obtain g s1 where g: "canCallNow (date_now rd) s = (g, s1)"
    by (cases "canCallNow (date_now rd) s")
  have "admitted s1 = admitted s"
    using canCallNow_cases [OF g] by simp
  then show ?thesis
    using g
    by (cases g) (simp_all add: callOmniTech_begin_def addLog_eq Let_def split: capture.splits)
qed

lemma begin_moves: "guard_moves rd s (callOmniTech_begin cfg rd cl m ctx s)"
proof -
  obtain g s1 where g: "canCallNow (date_now rd) s = (g, s1)"
    by (cases "canCallNow (date_now rd) s")
  note c = canCallNow_cases [OF g]
  show ?thesis
  proof (cases g)
    case Ok
    then show ?thesis
      using g c
      by (simp add: guard_moves_def callOmniTech_begin_def addLog_eq Let_def
          split: capture.splits)
  next
    case (Reject reason)
    then show ?thesis
      using g c by (auto simp add: guard_moves_def callOmniTech_begin_def)
  qed
qed

lemma guard_moves_refl: "guard_moves rd s s"
  by (simp add: guard_moves_def)

lemma guard_moves_cong:
  "lastCallAt s0 = lastCallAt s \<Longrightarrow> callTimestamps s0 = callTimestamps s \<Longrightarrow>
   admitted s0 = admitted s \<Longrightarrow> lastCallAt s'' = lastCallAt s' \<Longrightarrow>
   callTimestamps s'' = callTimestamps s' \<Longrightarrow> admitted s'' = admitted s' \<Longrightarrow>
   guard_moves rd s0 s' \<Longrightarrow> guard_moves rd s s''"
  by (simp add: guard_moves_def)

lemma resume_guard:
  "lastCallAt (callOmniTech_resume cfg rd p out s) = lastCallAt s
   \<and> callTimestamps (callOmniTech_resume cfg rd p out s) = callTimestamps s
   \<and> admitted (callOmniTech_resume cfg rd p out s) = admitted s"
  by (simp add: callOmniTech_resume_def connection_failed_def finish_def addLog_eq Let_def
      split: fetch_outcome.splits option.splits json_outcome.splits)

lemma report_guard:
  "lastCallAt (generateFieldReport_begin cfg rd s) = lastCallAt s
   \<and> callTimestamps (generateFieldReport_begin cfg rd s) = callTimestamps s
   \<and> admitted (generateFieldReport_begin cfg rd s) = admitted s
   \<and> lastCallAt (generateFieldReport_resume rd ls out s) = lastCallAt s
   \<and> callTimestamps (generateFieldReport_resume rd ls out s) = callTimestamps s
   \<and> admitted (generateFieldReport_resume rd ls out s) = admitted s"
  by (simp add: generateFieldReport_begin_def generateFieldReport_resume_def report_failed_def
      report_done_def addLog_eq Let_def split: option.splits report_outcome.splits)

lemma step_moves: "guard_moves rd s (step cfg rd ev s)"
proof (cases ev)
  case ClickSafety
  then show ?thesis
    using begin_moves [where rd = rd and s = "s\<lparr>activeTab := ''safety''\<rparr>" and cfg = cfg
        and cl = "current_closure s" and m = safety_check and ctx = "[]"]
    by (auto simp add: step_def guard_moves_refl elim: guard_moves_cong [rotated -1])
next
  case ClickDiagnose
  then show ?thesis
    using begin_moves [where rd = rd and s = "s\<lparr>activeTab := ''diagnose''\<rparr>" and cfg = cfg
        and cl = "current_closure s" and m = diagnosis and ctx = "[]"]
    by (auto simp add: step_def guard_moves_refl elim: guard_moves_cong [rotated -1])
next
  case ClickRepair
  then show ?thesis
    using begin_moves [where rd = rd and s = s and cfg = cfg
        and cl = "current_closure s" and m = repair_guide and ctx = "[]"]
    by (auto simp add: step_def guard_moves_refl split: option.splits)
next
  case SubmitText
  then show ?thesis
    using begin_moves [where rd = rd and s = "s\<lparr>toast := Some \<lparr>toast_message = ''Context sent.'',
        toast_type = ''success''\<rparr>\<rparr>" and cfg = cfg
        and cl = "current_closure s" and m = diagnosis and ctx = "trim (userContext s)"]
    by (auto simp add: step_def submitTextDiagnosis_def Let_def guard_moves_refl
        elim: guard_moves_cong [rotated -1])
next
  case ClickReport
  then show ?thesis
    using report_guard [of cfg rd s] by (simp add: step_def guard_moves_def)
next
  case (FetchDone out)
  then show ?thesis
    using resume_guard [of cfg rd _ out s]
    by (simp add: step_def guard_moves_def split: option.splits)
next
  case (ReportFetchDone out)
  then show ?thesis
    using report_guard [of cfg rd s _ out]
    by (simp add: step_def guard_moves_def split: option.splits)
next
  case (VoiceResult heard)
  show ?thesis
  proof (cases "recognition s")
    case None
    then show ?thesis
      using VoiceResult by (simp add: step_def guard_moves_refl)
  next
    case (Some cl)
    then show ?thesis
      using VoiceResult
        begin_moves [where rd = rd and s = "s\<lparr>toast := Some \<lparr>toast_message = ''Heard: '' @ [CHR 0x22] @ trim heard @ [CHR 0x22],
        toast_type = ''success''\<rparr>\<rparr>" and cfg = cfg
          and cl = cl and m = diagnosis and ctx = "trim heard"]
      by (auto simp add: step_def onresult_def Let_def guard_moves_refl
          elim: guard_moves_cong [rotated -1])
  qed
qed (simp_all add: step_def guard_moves_def toggleListening_def addLog_eq)


lemma moves_inv:
  assumes mv: "guard_moves rd s s'"
    and clk: "L \<le> date_now rd" "date_now rd \<le> date_now2 rd"
    and inv: "guard_inv L s"
    and win: "windows_ok (admitted s)"
  shows "guard_inv (date_now2 rd) s' \<and> windows_ok (admitted s')"
proof -
  let ?n = "date_now rd" and ?n2 = "date_now2 rd"
  let ?cts = "callTimestamps s" and ?adm = "admitted s"
  have le: "\<And>t. t \<in> set ?adm \<Longrightarrow> t \<le> L \<and> t \<le> lastCallAt s"
    using inv by (simp add: guard_inv_def)
  have cnt: "\<And>th. L - 60000 \<le> th \<Longrightarrow>
      length (filter (\<lambda>t. th < t) ?adm) \<le> length (filter (\<lambda>t. th < t) ?cts)"
    using inv by (simp add: guard_inv_def)
  from mv consider
    (same) "lastCallAt s' = lastCallAt s" "admitted s' = ?adm"
      "callTimestamps s' = ?cts \<or> callTimestamps s' = filter (\<lambda>t. ?n - 60000 < t) ?cts"
  | (adm) "COOLDOWN_MS \<le> ?n - lastCallAt s"
      "length (filter (\<lambda>t. ?n - 60000 < t) ?cts) < MAX_CALLS_PER_MIN"
      "lastCallAt s' = ?n2"
      "callTimestamps s' = filter (\<lambda>t. ?n - 60000 < t) ?cts @ [?n2]"
      "admitted s' = ?adm @ [?n2]"
    unfolding guard_moves_def by blast
  then show ?thesis
  proof cases
    case same
    have "length (filter (\<lambda>t. th < t) (admitted s'))
        \<le> length (filter (\<lambda>t. th < t) (callTimestamps s'))"
      if th: "?n2 - 60000 \<le> th" for th
    proof -
      have "filter (\<lambda>t. th < t) (callTimestamps s') = filter (\<lambda>t. th < t) ?cts"
        using same(3) th clk filter_above_pruned [of "?n - 60000" th ?cts] by auto
      then show ?thesis
        using cnt [of th] th clk same(2) by simp
    qed
    moreover have "\<And>t. t \<in> set (admitted s') \<Longrightarrow> t \<le> ?n2 \<and> t \<le> lastCallAt s'"
      using le clk same by fastforce
    ultimately show ?thesis
      using win same(2) by (simp add: guard_inv_def)
  next
    case adm
    have old_le: "\<And>t. t \<in> set ?adm \<Longrightarrow> t + COOLDOWN_MS \<le> ?n2 \<and> t \<le> ?n2"
      using le clk adm(1) by (fastforce simp add: COOLDOWN_MS_def)
    have A: "\<And>t. t \<in> set (admitted s') \<Longrightarrow> t \<le> ?n2 \<and> t \<le> lastCallAt s'"
      using old_le adm(3,5) by auto
    have C: "length (filter (\<lambda>t. th < t) (admitted s'))
        \<le> length (filter (\<lambda>t. th < t) (callTimestamps s'))"
      if th: "?n2 - 60000 \<le> th" for th
    proof -
      have "filter (\<lambda>t. th < t) (filter (\<lambda>t. ?n - 60000 < t) ?cts) = filter (\<lambda>t. th < t) ?cts"
        using th clk filter_above_pruned [of "?n - 60000" th ?cts] by simp
      then show ?thesis
        using cnt [of th] th clk adm(4,5) by simp
    qed
    have B: "length (filter (\<lambda>t. a \<le> t \<and> t < a + COOLDOWN_MS) (admitted s')) \<le> 1" for a
    proof (cases "a \<le> ?n2 \<and> ?n2 < a + COOLDOWN_MS")
      case True
      have "filter (\<lambda>t. a \<le> t \<and> t < a + COOLDOWN_MS) ?adm = []"
        using old_le True by (fastforce simp add: filter_empty_conv)
      then show ?thesis
        using adm(5) by simp
    next
      case False
      then show ?thesis
        using win adm(5) by (auto simp add: windows_ok_def)
    qed
    have D: "length (filter (\<lambda>t. T - 60000 < t \<and> t \<le> T) (admitted s')) \<le> MAX_CALLS_PER_MIN"
      for T
    proof (cases "T - 60000 < ?n2 \<and> ?n2 \<le> T")
      case True
      have "length (filter (\<lambda>t. T - 60000 < t \<and> t \<le> T) ?adm)
          \<le> length (filter (\<lambda>t. T - 60000 < t) ?adm)"
        by (rule length_filter_imp) simp
      also have "\<dots> \<le> length (filter (\<lambda>t. T - 60000 < t) ?cts)"
        using cnt [of "T - 60000"] True clk by simp
      also have "\<dots> \<le> length (filter (\<lambda>t. ?n - 60000 < t) ?cts)"
        by (rule length_filter_imp) (use True clk in simp)
      finally show ?thesis
        using adm(2,5) True by simp
    next
      case False
      then show ?thesis
        using win adm(5) by (auto simp add: windows_ok_def)
    qed
    show ?thesis
      using A B C D by (simp add: guard_inv_def windows_ok_def)
  qed
qed

lemma run_windows:
  "clock_ok L evs \<Longrightarrow> guard_inv L s \<Longrightarrow> windows_ok (admitted s) \<Longrightarrow>
   windows_ok (admitted (run cfg evs s))"
proof (induction evs arbitrary: L s)
  case Nil
  then show ?case by simp
next
  case (Cons e evs)
  obtain rd ev where e: "e = (rd, ev)" by (cases e)
  have clk: "L \<le> date_now rd" "date_now rd \<le> date_now2 rd" "clock_ok (date_now2 rd) evs"
    using Cons.prems(1) e by simp_all
  have "guard_inv (date_now2 rd) (step cfg rd ev s) \<and> windows_ok (admitted (step cfg rd ev s))"
    using moves_inv [OF step_moves clk(1,2) Cons.prems(2,3)] .
  then show ?case
    using Cons.IH [OF clk(3)] e by simp
qed

text \<open>
  C7. Take any session whose clock readings never decrease (strictly increasing timestamps are
  such a session) and that starts with no admission recorded. Then among the admitted calls at
  most one has its timestamp in any window \<open>[a, a + COOLDOWN_MS)\<close>, and at most
  \<open>MAX_CALLS_PER_MIN\<close> have it in any trailing minute \<open>(T - 60000, T]\<close>. The trace \<open>admitted\<close>
  is what it is called: \<open>callOmniTech\<close> extends it exactly when \<open>canCallNow\<close> says ok.
\<close>

theorem rate_guard_windows:
  assumes "clock_ok L evs" and "admitted s = []"
  shows "length (filter (\<lambda>t. a \<le> t \<and> t < a + COOLDOWN_MS) (admitted (run cfg evs s))) \<le> 1
    \<and> length (filter (\<lambda>t. T - 60000 < t \<and> t \<le> T) (admitted (run cfg evs s)))
        \<le> MAX_CALLS_PER_MIN
    \<and> admitted (callOmniTech_begin cfg rd cl m ctx s')
        = admitted s' @ (if fst (canCallNow (date_now rd) s') = Ok then [date_now2 rd] else [])"
proof -
  have "guard_inv L s" and "windows_ok (admitted s)"
    using assms(2) by (simp_all add: guard_inv_def windows_ok_def)
  then have "windows_ok (admitted (run cfg evs s))"
    using run_windows assms(1) by blast
  then show ?thesis
    using begin_admitted by (simp add: windows_ok_def)
qed

theorem rate_guard_windows_witness:
  "clock_ok 0 sample_run
   \<and> admitted initial_state = []
   \<and> admitted (run sample_config sample_run initial_state) = [5000, 8000]
   \<and> length (filter (\<lambda>t. 5000 \<le> t \<and> t < 5000 + COOLDOWN_MS)
        (admitted (run sample_config sample_run initial_state))) \<le> 1
   \<and> length (filter (\<lambda>t. 60000 - 60000 < t \<and> t \<le> 60000)
        (admitted (run sample_config sample_run initial_state))) \<le> MAX_CALLS_PER_MIN"
proof -
  have h1: "clock_ok 0 sample_run"
    by (simp add: sample_run_def sample_reads_def)
  have h2: "admitted initial_state = []"
    by (simp add: initial_state_def)
  have e: "admitted (run sample_config sample_run initial_state) = [5000, 8000]"
    by (simp add: sample_run_def step_def begin_admitted resume_guard canCallNow_def
        callOmniTech_begin_def callOmniTech_resume_def handleAnalysisResult_def answer_def
        response_ok_def finish_def addLog_eq speak_def
        sample_config_def sample_reads_def initial_state_def truthy_def current_closure_def
        COOLDOWN_MS_def MAX_CALLS_PER_MIN_def Let_def)
  note inst = rate_guard_windows [OF h1 h2, where a = 5000 and T = 60000 and cfg = sample_config]
  from inst [THEN conjunct1] inst [THEN conjunct2, THEN conjunct1]
  show ?thesis
    using h1 h2 e by blast
qed

subsection \<open>The report\<close>

lemma join_lines_append:
  "xs \<noteq> [] \<Longrightarrow> ys \<noteq> [] \<Longrightarrow> join_lines (xs @ ys) = join_lines xs @ [CHR 0x0A] @ join_lines ys"
proof (induction xs rule: join_lines.induct)
  case 1
  then show ?case by simp
next
  case (2 l)
  then show ?case by (cases ys) simp_all
next
  case (3 l m ls)
  then show ?case by simp
qed

lemma join_lines_nonempty: "l \<noteq> [] \<Longrightarrow> join_lines (l # ls) \<noteq> []"
  by (cases ls) simp_all

lemma sublist_join_lines: "l \<in> set ls \<Longrightarrow> sublist l (join_lines ls)"
proof (induction ls rule: join_lines.induct)
  case 1
  then show ?case by simp
next
  case (2 l')
  then show ?case by simp
next
  case (3 l' m ls)
  show ?case
  proof (cases "l = l'")
    case True
    then show ?thesis
      using sublist_appendI [of l "[]" "[CHR 0x0A] @ join_lines (m # ls)"] by simp
  next
    case False
    then have "sublist l (join_lines (m # ls))"
      using 3 by simp
    then show ?thesis
      using sublist_append [of l "l' @ [CHR 0x0A]" "join_lines (m # ls)"] by simp
  qed
qed

lemma sublist_message_fmt_log: "sublist (message e) (fmt_log e)"
  using sublist_appendI [of "message e" "''['' @ time e @ ''] '' @ source e @ '': ''" "[]"]
  by (simp add: fmt_log_def)

lemma set_join_lines: "set (join_lines ls) \<subseteq> insert (CHR 0x0A) (\<Union> (set ` set ls))"
  by (induction ls rule: join_lines.induct) auto

lemma report_structure:
  assumes "ls \<noteq> []"
  shows "local_report g ls
      = join_lines (local_header g) @ [CHR 0x0A] @ join_lines (map fmt_log (rev (take 30 ls)))
        @ [CHR 0x0A] @ join_lines local_footer"
    and "fallback_report g ls
      = join_lines (fallback_header g) @ [CHR 0x0A] @ join_lines (map fmt_log (rev (take 30 ls)))"
proof -
  have r: "recent_lines ls \<noteq> []"
    using assms by (cases ls) (simp_all add: recent_lines_def)
  have f: "local_footer \<noteq> []" and h: "local_header g \<noteq> []" and h': "fallback_header g \<noteq> []"
    by (simp_all add: local_footer_def local_header_def fallback_header_def)
  show "local_report g ls
      = join_lines (local_header g) @ [CHR 0x0A] @ join_lines (map fmt_log (rev (take 30 ls)))
        @ [CHR 0x0A] @ join_lines local_footer"
    using join_lines_append [OF h, of "recent_lines ls @ local_footer"]
      join_lines_append [OF r f] r
    by (simp add: local_report_def recent_lines_def)
  show "fallback_report g ls
      = join_lines (fallback_header g) @ [CHR 0x0A] @ join_lines (map fmt_log (rev (take 30 ls)))"
    using join_lines_append [OF h' r]
    by (simp add: fallback_report_def recent_lines_def)
qed

lemma report_contains:
  assumes "e \<in> set (take 30 ls)"
  shows "sublist (message e) (local_report g ls) \<and> sublist (message e) (fallback_report g ls)"
proof -
  have "fmt_log e \<in> set (local_header g @ recent_lines ls @ local_footer)"
    using assms by (simp add: recent_lines_def)
  then have a: "sublist (fmt_log e) (local_report g ls)"
    unfolding local_report_def by (rule sublist_join_lines)
  have "fmt_log e \<in> set (fallback_header g @ recent_lines ls)"
    using assms by (simp add: recent_lines_def)
  then have "sublist (fmt_log e) (fallback_report g ls)"
    unfolding fallback_report_def by (rule sublist_join_lines)
  with a have "sublist (fmt_log e) (local_report g ls) \<and> sublist (fmt_log e) (fallback_report g ls)"
    by simp
  then show ?thesis
    using sublist_message_fmt_log [of e] sublist_order.order_trans by blast
qed

lemma report_nonempty: "local_report g ls \<noteq> [] \<and> fallback_report g ls \<noteq> []"
  by (simp add: local_report_def fallback_report_def local_header_def fallback_header_def)

text \<open>
  C9, as the code has it. The Report button is disabled below two log entries, so a click then
  changes nothing and sends nothing; \<open>generateFieldReport\<close> itself returns early only on an
  empty log. With at least one entry it sets the local report, opens the modal and, the build
  being in demo mode, sends no request. Both local documents are non-empty: after the header
  they hold the lines of the 30 newest entries at most, oldest first, each line ending with the
  entry's message, so the message of each of those entries occurs in the document.
\<close>

theorem report_generation:
  "(length (logs s) < 2 \<longrightarrow> step cfg rd ClickReport s = s)
   \<and> (logs s = [] \<longrightarrow> generateFieldReport_begin cfg rd s = s)
   \<and> (logs s \<noteq> [] \<longrightarrow>
        generatedReport (generateFieldReport_begin cfg rd s)
          = Some (local_report (date_string rd) (logs s))
        \<and> showReportModal (generateFieldReport_begin cfg rd s)
        \<and> report_requests (generateFieldReport_begin cfg rd s) = report_requests s
        \<and> requests (generateFieldReport_begin cfg rd s) = requests s)
   \<and> local_report g ls \<noteq> [] \<and> fallback_report g ls \<noteq> []
   \<and> (ls \<noteq> [] \<longrightarrow>
        local_report g ls
          = join_lines (local_header g) @ [CHR 0x0A]
            @ join_lines (map fmt_log (rev (take 30 ls)))
            @ [CHR 0x0A] @ join_lines local_footer
        \<and> fallback_report g ls
          = join_lines (fallback_header g) @ [CHR 0x0A]
            @ join_lines (map fmt_log (rev (take 30 ls))))
   \<and> (\<forall>e \<in> set (take 30 ls).
        sublist (message e) (local_report g ls) \<and> sublist (message e) (fallback_report g ls))
   \<and> fmt_log l = ''['' @ time l @ ''] '' @ source l @ '': '' @ message l"
proof -
  have a: "length (logs s) < 2 \<longrightarrow> step cfg rd ClickReport s = s"
    by (simp add: step_def)
  have b: "logs s = [] \<longrightarrow> generateFieldReport_begin cfg rd s = s"
    by (simp add: generateFieldReport_begin_def)
  have c: "logs s \<noteq> [] \<longrightarrow>
        generatedReport (generateFieldReport_begin cfg rd s)
          = Some (local_report (date_string rd) (logs s))
        \<and> showReportModal (generateFieldReport_begin cfg rd s)
        \<and> report_requests (generateFieldReport_begin cfg rd s) = report_requests s
        \<and> requests (generateFieldReport_begin cfg rd s) = requests s"
    by (simp add: generateFieldReport_begin_def DEMO_MODE_def addLog_eq Let_def)
  show ?thesis
    using a b c report_nonempty [of g ls] report_structure [of ls g] report_contains [of _ ls g]
    by (simp add: fmt_log_def)
qed

theorem report_generation_witness:
  "length (logs initial_state) < 2
   \<and> step sample_config (sample_reads 5000) ClickReport initial_state = initial_state
   \<and> logs initial_state = []
   \<and> generateFieldReport_begin sample_config (sample_reads 5000) initial_state = initial_state
   \<and> logs (initial_state\<lparr>logs := [recent_entry, oldest_entry]\<rparr>) \<noteq> []
   \<and> generatedReport (generateFieldReport_begin sample_config (sample_reads 5000)
        (initial_state\<lparr>logs := [recent_entry, oldest_entry]\<rparr>))
       = Some (local_report (date_string (sample_reads 5000))
           (logs (initial_state\<lparr>logs := [recent_entry, oldest_entry]\<rparr>)))
   \<and> [recent_entry, oldest_entry] \<noteq> []
   \<and> local_report ''today'' [recent_entry, oldest_entry]
       = join_lines (local_header ''today'') @ [CHR 0x0A]
         @ join_lines (map fmt_log (rev (take 30 [recent_entry, oldest_entry])))
         @ [CHR 0x0A] @ join_lines local_footer
   \<and> oldest_entry \<in> set (take 30 [recent_entry, oldest_entry])
   \<and> sublist (message oldest_entry) (local_report ''today'' [recent_entry, oldest_entry])"
proof -
  have h1: "logs (initial_state\<lparr>logs := [recent_entry, oldest_entry]\<rparr>) \<noteq> []"
    by simp
  have h2: "length (logs initial_state) < 2"
    by (simp add: initial_state_def)
  have h3: "oldest_entry \<in> set (take 30 [recent_entry, oldest_entry])"
    by simp
  have h4: "logs initial_state = []"
    by (simp add: initial_state_def)
  have h5: "[recent_entry, oldest_entry] \<noteq> []"
    by simp
  note r1 = report_generation [where s = "initial_state\<lparr>logs := [recent_entry, oldest_entry]\<rparr>"
      and cfg = sample_config and rd = "sample_reads 5000"]
  note r2 = report_generation [where s = initial_state and cfg = sample_config
      and rd = "sample_reads 5000"]
  note r3 = report_generation [where g = "''today''" and ls = "[recent_entry, oldest_entry]"]
  note tail = r3 [THEN conjunct2, THEN conjunct2, THEN conjunct2, THEN conjunct2, THEN conjunct2]
  from r2 [THEN conjunct1, THEN mp, OF h2]
    r2 [THEN conjunct2, THEN conjunct1, THEN mp, OF h4]
    r1 [THEN conjunct2, THEN conjunct2, THEN conjunct1, THEN mp, OF h1, THEN conjunct1]
    tail [THEN conjunct1, THEN mp, OF h5, THEN conjunct1]
    tail [THEN conjunct2, THEN conjunct1, THEN bspec, OF h3, THEN conjunct1]
  show ?thesis
    using h1 h2 h3 h4 h5 by blast
qed

text \<open>
  The claim as stated fails twice: called with exactly one entry, \<open>generateFieldReport\<close>
  changes the state; and with 31 entries the document does not contain the message of the
  oldest one.
\<close>

theorem report_with_one_entry_and_truncation:
  "generateFieldReport_begin sample_config (sample_reads 5000)
      (initial_state\<lparr>logs := [recent_entry]\<rparr>) \<noteq> initial_state\<lparr>logs := [recent_entry]\<rparr>
   \<and> length (replicate 30 recent_entry @ [oldest_entry]) = 31
   \<and> \<not> sublist (message oldest_entry)
        (local_report ''today'' (replicate 30 recent_entry @ [oldest_entry]))"
proof -
  have "generatedReport (generateFieldReport_begin sample_config (sample_reads 5000)
      (initial_state\<lparr>logs := [recent_entry]\<rparr>)) \<noteq> generatedReport (initial_state\<lparr>logs := [recent_entry]\<rparr>)"
    by (simp add: generateFieldReport_begin_def DEMO_MODE_def addLog_eq initial_state_def Let_def)
  then have a: "generateFieldReport_begin sample_config (sample_reads 5000)
      (initial_state\<lparr>logs := [recent_entry]\<rparr>) \<noteq> initial_state\<lparr>logs := [recent_entry]\<rparr>"
    by metis
  have "CHR ''#'' \<notin> set (local_report ''today'' (replicate 30 recent_entry @ [oldest_entry]))"
    using set_join_lines [of "local_header ''today''
        @ recent_lines (replicate 30 recent_entry @ [oldest_entry]) @ local_footer"]
    by (auto simp add: local_report_def recent_lines_def local_header_def local_footer_def
        fmt_log_def recent_entry_def)
  then have b: "\<not> sublist (message oldest_entry)
        (local_report ''today'' (replicate 30 recent_entry @ [oldest_entry]))"
    using set_mono_sublist [of "message oldest_entry"
        "local_report ''today'' (replicate 30 recent_entry @ [oldest_entry])"]
    by (auto simp add: oldest_entry_def)
  show ?thesis
    using a b by simp
qed

subsection \<open>Mode gating\<close>

lemma handleAnalysisResult_safe_shown:
  "safe_shown s \<Longrightarrow> safe_shown (handleAnalysisResult cfg rd usr r m k s)"
  by (simp add: safe_shown_def handleAnalysisResult_def addLog_eq speak_def or_else_def Let_def
      split: option.splits)

lemma safe_shown_cong:
  "currentAnalysis s' = currentAnalysis s \<Longrightarrow> systemState s' = systemState s \<Longrightarrow>
   safe_shown s \<Longrightarrow> safe_shown s'"
  by (simp add: safe_shown_def)

lemma begin_safe_shown:
  assumes "safe_shown s"
  shows "safe_shown (callOmniTech_begin cfg rd cl m ctx s)"
proof -
  obtain g s1 where g: "canCallNow (date_now rd) s = (g, s1)"
    by (cases "canCallNow (date_now rd) s")
  have s1: "currentAnalysis s1 = currentAnalysis s" "systemState s1 = systemState s"
    using canCallNow_more(4,3) [of "date_now rd" s] g by simp_all
  show ?thesis
  proof (cases g)
    case (Reject reason)
    then show ?thesis
      using g s1 assms by (simp add: callOmniTech_begin_def safe_shown_def)
  next
    case Ok
    let ?s4 = "addLog rd ''ERROR'' ''Missing VITE_GEMINI_API_KEY. Using demo output.'' ''error''
      (s1\<lparr>lastCallAt := date_now2 rd,
          callTimestamps := callTimestamps s1 @ [date_now2 rd],
          admitted := admitted s1 @ [date_now2 rd], analyzing := True, inFlight := True\<rparr>)
      \<lparr>demoStep := Suc (demoStep s1)\<rparr>"
    have "safe_shown ?s4"
      using s1 assms by (simp add: safe_shown_def addLog_eq)
    then have "safe_shown (handleAnalysisResult cfg rd (c_user cl) (getDemoResult m (c_demoStep cl)) m True ?s4)"
      by (rule handleAnalysisResult_safe_shown)
    then have k: "safe_shown (handleAnalysisResult cfg rd (c_user cl) (getDemoResult m (c_demoStep cl)) m True ?s4
        \<lparr>analyzing := False, inFlight := False\<rparr>)"
      by (simp add: safe_shown_def)
    show ?thesis
    proof (cases "truthy (API_KEY cfg)")
      case True
      then show ?thesis
        using g Ok s1 assms
        by (simp add: callOmniTech_begin_def safe_shown_def addLog_eq Let_def
            split: capture.splits)
    next
      case False
      then show ?thesis
        using g Ok k canCallNow_more(1) [of "date_now rd" s]
        by (simp add: callOmniTech_begin_def addLog_eq Let_def)
    qed
  qed
qed

lemma resume_safe_shown:
  assumes "safe_shown s"
  shows "safe_shown (callOmniTech_resume cfg rd p out s)"
proof -
  have f: "\<And>x. safe_shown x \<Longrightarrow> safe_shown (finish x)"
    by (simp add: safe_shown_def finish_def)
  have l: "\<And>a b c x. safe_shown x \<Longrightarrow> safe_shown (addLog rd a b c x)"
    by (simp add: safe_shown_def addLog_eq)
  have h: "\<And>u r m k x. safe_shown x \<Longrightarrow> safe_shown (handleAnalysisResult cfg rd u r m k x)"
    by (rule handleAnalysisResult_safe_shown)
  have u: "\<And>x v. safe_shown x \<Longrightarrow> safe_shown (x\<lparr>userContext := v\<rparr>)"
    "\<And>x v. safe_shown x \<Longrightarrow> safe_shown (x\<lparr>toast := v\<rparr>)"
    "\<And>x v. safe_shown x \<Longrightarrow> safe_shown (x\<lparr>demoStep := v\<rparr>)"
    by (simp_all add: safe_shown_def)
  show ?thesis
    using assms
    by (auto simp add: callOmniTech_resume_def connection_failed_def DEMO_MODE_def Let_def
        intro!: f l h u split: fetch_outcome.splits option.splits json_outcome.splits)
qed

lemma step_safe_shown:
  assumes "safe_shown s"
  shows "safe_shown (step cfg rd ev s)"
proof (cases ev)
  case ClickSafety
  then show ?thesis
    using assms begin_safe_shown [where s = "s\<lparr>activeTab := ''safety''\<rparr>" and cfg = cfg and rd = rd
        and cl = "current_closure s" and m = safety_check and ctx = "[]"]
    by (simp add: step_def safe_shown_def)
next
  case ClickDiagnose
  then show ?thesis
    using assms begin_safe_shown [where s = "s\<lparr>activeTab := ''diagnose''\<rparr>" and cfg = cfg and rd = rd
        and cl = "current_closure s" and m = diagnosis and ctx = "[]"]
    by (simp add: step_def safe_shown_def)
next
  case ClickRepair
  then show ?thesis
    using assms begin_safe_shown [where s = s and cfg = cfg and rd = rd
        and cl = "current_closure s" and m = repair_guide and ctx = "[]"]
    by (simp add: step_def split: option.splits)
next
  case SubmitText
  have "safe_shown (callOmniTech_begin cfg rd (current_closure s) diagnosis (trim (userContext s))
      (s\<lparr>toast := Some \<lparr>toast_message = ''Context sent.'', toast_type = ''success''\<rparr>\<rparr>))"
    using assms by (intro begin_safe_shown) (simp add: safe_shown_def)
  then show ?thesis
    using SubmitText assms by (simp add: step_def submitTextDiagnosis_def Let_def safe_shown_def)
next
  case ClickReport
  then show ?thesis
    using assms
    by (simp add: step_def generateFieldReport_begin_def safe_shown_def addLog_eq Let_def)
next
  case (FetchDone out)
  then show ?thesis
    using assms resume_safe_shown by (simp add: step_def split: option.splits)
next
  case (ReportFetchDone out)
  then show ?thesis
    using assms
    by (simp add: step_def generateFieldReport_resume_def report_failed_def report_done_def
        safe_shown_def addLog_eq Let_def split: option.splits report_outcome.splits)
next
  case (VoiceResult heard)
  show ?thesis
  proof (cases "recognition s")
    case None
    then show ?thesis
      using VoiceResult assms by (simp add: step_def)
  next
    case (Some cl)
    have "safe_shown (callOmniTech_begin cfg rd cl diagnosis (trim heard)
        (s\<lparr>toast := Some \<lparr>toast_message = ''Heard: '' @ [CHR 0x22] @ trim heard @ [CHR 0x22],
        toast_type = ''success''\<rparr>\<rparr>))"
      using assms by (intro begin_safe_shown) (simp add: safe_shown_def)
    then show ?thesis
      using VoiceResult Some assms by (simp add: step_def onresult_def Let_def safe_shown_def)
  qed
qed (use assms in \<open>simp_all add: step_def safe_shown_def toggleListening_def addLog_eq\<close>)

lemma run_safe_shown: "safe_shown s \<Longrightarrow> safe_shown (run cfg evs s)"
proof (induction evs arbitrary: s)
  case Nil
  then show ?case by simp
next
  case (Cons e evs)
  obtain rd ev where e: "e = (rd, ev)" by (cases e)
  show ?case
    unfolding e run.simps by (rule Cons.IH) (rule step_safe_shown [OF Cons.prems])
qed

text \<open>
  The two buttons are gated: "View Repair Steps" does nothing unless the safety state is
  \<open>SAFE\<close>, at any point of any session, and DIAGNOSE does nothing in \<open>DANGER\<close> or
  \<open>UNCERTAIN\<close>.
\<close>

lemma repair_button_locked:
  assumes "systemState (run cfg evs initial_state) \<noteq> ''SAFE''"
  shows "step cfg rd ClickRepair (run cfg evs initial_state) = run cfg evs initial_state"
proof -
  have "safe_shown (run cfg evs initial_state)"
    by (rule run_safe_shown) (simp add: safe_shown_def initial_state_def)
  then show ?thesis
    using assms by (auto simp add: step_def safe_shown_def split: option.splits)
qed

lemma diagnose_button_locked:
  "systemState s = ''DANGER'' \<or> systemState s = ''UNCERTAIN'' \<Longrightarrow> step cfg rd ClickDiagnose s = s"
  by (auto simp add: step_def)

lemma danger_state_eval:
  "systemState danger_state = ''DANGER''
   \<and> userContext danger_state = ''why is it sparking''
   \<and> length (requests danger_state) = 1
   \<and> inFlight danger_state = False \<and> lastCallAt danger_state = 5000
   \<and> callTimestamps danger_state = [5000] \<and> pending danger_state = None
   \<and> isListening danger_state = False"
  by (simp add: danger_state_def danger_run_def step_def canCallNow_def
        callOmniTech_begin_def callOmniTech_resume_def handleAnalysisResult_def answer_def
        response_ok_def finish_def addLog_eq speak_def refusal_def or_else_def
        sample_config_def sample_reads_def initial_state_def truthy_def current_closure_def
        COOLDOWN_MS_def MAX_CALLS_PER_MIN_def Let_def)

text \<open>
  C1, at the input where the code departs from it. The session \<open>danger_run\<close> ends in state
  \<open>DANGER\<close> with a question in the text field. There the DIAGNOSE button does nothing, but
  Enter in the text field runs \<open>submitTextDiagnosis\<close>, which calls \<open>callOmniTech\<close> in
  diagnosis mode without looking at the safety state: a diagnosis request goes to the inference
  service while the state is still \<open>DANGER\<close>. Dictating the question through the microphone
  does the same.
\<close>

theorem text_diagnosis_bypasses_lock:
  "systemState danger_state = ''DANGER''
   \<and> step sample_config (sample_reads 9000) ClickDiagnose danger_state = danger_state
   \<and> requests (step sample_config (sample_reads 9000) SubmitText danger_state)
       = requests danger_state
         @ [\<lparr>req_task = task_clause diagnosis, req_text = ''User Context: why is it sparking'',
             req_image = ''frame''\<rparr>]
   \<and> systemState (step sample_config (sample_reads 9000) SubmitText danger_state) = ''DANGER''
   \<and> requests (run sample_config
         [(sample_reads 8000, ClickMicrophone),
          (sample_reads 9000, VoiceResult ''why is it sparking'')] danger_state)
       = requests danger_state
         @ [\<lparr>req_task = task_clause diagnosis, req_text = ''User Context: why is it sparking'',
             req_image = ''frame''\<rparr>]"
proof -
  note d = danger_state_eval
  have sp: "trim ''why is it sparking'' = ''why is it sparking''"
    by (simp add: trim_def strip.simps white_space_def)
  have a: "step sample_config (sample_reads 9000) ClickDiagnose danger_state = danger_state"
    using d by (simp add: diagnose_button_locked)
  have b: "requests (step sample_config (sample_reads 9000) SubmitText danger_state)
       = requests danger_state
         @ [\<lparr>req_task = task_clause diagnosis, req_text = ''User Context: why is it sparking'',
             req_image = ''frame''\<rparr>]
     \<and> systemState (step sample_config (sample_reads 9000) SubmitText danger_state) = ''DANGER''"
    using d sp
    by (simp add: step_def submitTextDiagnosis_def callOmniTech_begin_def canCallNow_def
        sample_config_def sample_reads_def truthy_def or_else_def current_closure_def
        COOLDOWN_MS_def MAX_CALLS_PER_MIN_def Let_def)
  have c: "requests (run sample_config
         [(sample_reads 8000, ClickMicrophone),
          (sample_reads 9000, VoiceResult ''why is it sparking'')] danger_state)
       = requests danger_state
         @ [\<lparr>req_task = task_clause diagnosis, req_text = ''User Context: why is it sparking'',
             req_image = ''frame''\<rparr>]"
    using d sp
    by (simp add: step_def toggleListening_def onresult_def callOmniTech_begin_def canCallNow_def
        sample_config_def sample_reads_def truthy_def or_else_def current_closure_def
        COOLDOWN_MS_def MAX_CALLS_PER_MIN_def Let_def)
  show ?thesis
    using d a b c by simp
qed

theorem text_diagnosis_bypasses_lock_witness:
  "systemState danger_state = ''DANGER''
   \<and> length (requests danger_state) = 1
   \<and> length (requests (step sample_config (sample_reads 9000) SubmitText danger_state)) = 2"
proof -
  note t = text_diagnosis_bypasses_lock
  have "length (requests (step sample_config (sample_reads 9000) SubmitText danger_state))
      = length (requests danger_state) + 1"
    using t [THEN conjunct2, THEN conjunct2, THEN conjunct1] by simp
  then show ?thesis
    using t [THEN conjunct1] danger_state_eval by simp
qed

end
